theory Spec2Isabelle
  imports Main "HOL-Library.Word" "HOL-Library.Sublist"
begin

section \<open>m3u82mp3: data model\<close>

text \<open>
  The converter of \<^verbatim>\<open>m3u82mp3.py\<close> works on the object that \<^verbatim>\<open>m3u8.loads\<close> returns.
  Parsing itself belongs to the m3u8 library; the model starts from the parsed object and
  keeps the attributes the converter reads: \<^verbatim>\<open>media_sequence\<close>, \<^verbatim>\<open>keys\<close> and
  \<^verbatim>\<open>segments\<close>; of a key \<^verbatim>\<open>method\<close>
  (as \<open>key_method\<close>) and \<^verbatim>\<open>uri\<close>; of a segment \<^verbatim>\<open>uri\<close> and \<^verbatim>\<open>key\<close>
  (as \<open>seg_uri\<close> and \<open>seg_key\<close>).
  A Python reference that may be \<^verbatim>\<open>None\<close> is an \<open>option\<close>.
\<close>

type_synonym byte = "8 word"
type_synonym bytes = "byte list"

record m3u8_key =
  key_method :: string
  uri :: "string option"

record m3u8_segment =
  seg_uri :: string
  seg_key :: "m3u8_key option"

record m3u8_obj =
  media_sequence :: int
  keys :: "m3u8_key option list"
  segments :: "m3u8_segment list"

text \<open>
  Exceptions are values. \<^verbatim>\<open>binascii.Error\<close> is a subclass of \<^verbatim>\<open>ValueError\<close>, and
  the errors of \<^verbatim>\<open>urlopen\<close> and \<^verbatim>\<open>open\<close> are subclasses of \<^verbatim>\<open>OSError\<close>; each is
  modelled by its base class, with the message as argument.
\<close>

datatype error =
    TypeError string
  | ValueError string
  | AttributeError string
  | IndexError string
  | OSError string

section \<open>The IV of a segment: \<^verbatim>\<open>binascii.a2b_hex('%032x' % ind)\<close>\<close>

definition hex_digit :: "nat \<Rightarrow> char" where
  "hex_digit d = ''0123456789abcdef'' ! d"

text \<open>The digits of a natural number in base 16, lower case, most significant first.\<close>

fun to_hex :: "nat \<Rightarrow> string" where
  "to_hex n = (if n < 16 then [hex_digit n] else to_hex (n div 16) @ [hex_digit (n mod 16)])"

declare to_hex.simps [simp del]

text \<open>
  Python's \<^verbatim>\<open>'%032x' % ind\<close>: the hexadecimal digits padded with zeros on the left to a
  width of at least 32 characters; a longer number is printed in full. A negative number
  is printed with its sign first, which counts in the width.
\<close>

definition format_032x :: "int \<Rightarrow> string" where
  "format_032x ind =
     (if 0 \<le> ind
      then (let ds = to_hex (nat ind) in replicate (32 - length ds) CHR ''0'' @ ds)
      else (let ds = to_hex (nat (- ind)) in CHR ''-'' # replicate (31 - length ds) CHR ''0'' @ ds))"

text \<open>The value of a hexadecimal digit, as \<^verbatim>\<open>binascii\<close> reads it (both cases).\<close>

definition hex_val :: "char \<Rightarrow> nat option" where
  "hex_val c =
     (let n = of_char c :: nat in
      if 48 \<le> n \<and> n \<le> 57 then Some (n - 48)
      else if 97 \<le> n \<and> n \<le> 102 then Some (n - 87)
      else if 65 \<le> n \<and> n \<le> 70 then Some (n - 55)
      else None)"

fun a2b_pairs :: "string \<Rightarrow> bytes option" where
  "a2b_pairs [] = Some []"
| "a2b_pairs [c] = None"
| "a2b_pairs (c # d # rest) =
     (case hex_val c of None \<Rightarrow> None
      | Some hi \<Rightarrow>
        (case hex_val d of None \<Rightarrow> None
         | Some lo \<Rightarrow>
           (case a2b_pairs rest of None \<Rightarrow> None
            | Some bs \<Rightarrow> Some (of_nat (16 * hi + lo) # bs))))"

text \<open>
  \<^verbatim>\<open>binascii.a2b_hex\<close>: an odd number of characters is rejected first, then any
  character that is not a hexadecimal digit; both raise \<^verbatim>\<open>binascii.Error\<close>.
\<close>

definition a2b_hex :: "string \<Rightarrow> error + bytes" where
  "a2b_hex s =
     (if odd (length s) then Inl (ValueError ''Odd-length string'')
      else case a2b_pairs s of
             None \<Rightarrow> Inl (ValueError ''Non-hexadecimal digit found'')
           | Some bs \<Rightarrow> Inr bs)"

text \<open>Lines 152-153 of \<^verbatim>\<open>get_ts_from_m3u8\<close>, for segment index \<open>i\<close>.\<close>

definition segment_iv :: "int \<Rightarrow> nat \<Rightarrow> error + bytes" where
  "segment_iv media_seq i = (let ind = int i + media_seq in a2b_hex (format_032x ind))"

section \<open>The environment: URL syntax, network, file system, cipher\<close>

text \<open>
  \<^verbatim>\<open>urlparse\<close>, \<^verbatim>\<open>urlopen\<close>, \<^verbatim>\<open>open\<close> and the AES block cipher are library code.
  They are parameters of the model: \<open>urlparse\<close> gives the six components of its result,
  or the \<^verbatim>\<open>ValueError\<close> it raises for a string it rejects (an unbalanced bracket in
  the network location, for one); \<open>urlopen\<close> and \<open>open_rb\<close> give the bytes behind a
  location or the error raised, and \<open>cbc_decrypt\<close> is AES in CBC mode on a key, an IV and
  a ciphertext of valid lengths.
\<close>

record parse_result =
  scheme :: string
  netloc :: string
  path :: string
  params :: string
  query :: string
  fragment :: string

record env =
  urlparse :: "string \<Rightarrow> error + parse_result"
  urlopen :: "string \<Rightarrow> error + bytes"
  open_rb :: "string \<Rightarrow> error + bytes"
  cbc_decrypt :: "bytes \<Rightarrow> bytes \<Rightarrow> bytes \<Rightarrow> bytes"

text \<open>What the program does to the outside world, in order.\<close>

datatype event = Print string | Urlopen string | OpenRb string

section \<open>\<^verbatim>\<open>is_valid\<close> and \<^verbatim>\<open>read_bytes\<close>\<close>

text \<open>
  The names that \<^verbatim>\<open>qualifying\<close> may hold are the six fields of the parse result;
  \<^verbatim>\<open>getattr\<close> reads the field of that name.
\<close>

datatype url_attr = Scheme | Netloc | Path | Params | Query | Fragment

fun getattr :: "parse_result \<Rightarrow> url_attr \<Rightarrow> string" where
  "getattr token Scheme = scheme token"
| "getattr token Netloc = netloc token"
| "getattr token Path = path token"
| "getattr token Params = params token"
| "getattr token Query = query token"
| "getattr token Fragment = fragment token"

text \<open>
  \<^verbatim>\<open>qualifying or min_attributes\<close> takes the default for \<^verbatim>\<open>None\<close> and for an empty
  sequence; \<^verbatim>\<open>all\<close> of a list of strings holds when none of them is empty. An error
  raised by \<^verbatim>\<open>urlparse\<close> is not caught.
\<close>

definition is_valid :: "env \<Rightarrow> string \<Rightarrow> url_attr list option \<Rightarrow> error + bool" where
  "is_valid e url qualifying =
     (let min_attributes = [Scheme, Netloc];
          qualifying = (case qualifying of
                          None \<Rightarrow> min_attributes
                        | Some q \<Rightarrow> if q = [] then min_attributes else q)
      in case urlparse e url of
           Inl err \<Rightarrow> Inl err
         | Inr token \<Rightarrow>
             Inr (list_all (\<lambda>qualifying_attr. getattr token qualifying_attr \<noteq> []) qualifying))"

text \<open>
  \<^verbatim>\<open>read_bytes\<close> takes the list of events so far and returns it extended, together with
  the content read or the error raised. When \<^verbatim>\<open>is_valid\<close> raises, neither
  \<^verbatim>\<open>urlopen\<close> nor \<^verbatim>\<open>open\<close> is called.
\<close>

definition read_bytes :: "env \<Rightarrow> string \<Rightarrow> bool \<Rightarrow> event list \<Rightarrow> (error + bytes) \<times> event list" where
  "read_bytes e pth silent w =
     (case is_valid e pth None of
        Inl err \<Rightarrow> (Inl err, w)
      | Inr is_url \<Rightarrow>
          if is_url
          then (let w1 = (if \<not> silent then w @ [Print pth] else w)
                in (urlopen e pth, w1 @ [Urlopen pth]))
          else (open_rb e pth, w @ [OpenRb pth]))"

section \<open>\<^verbatim>\<open>save_converted_mp3\<close>\<close>

text \<open>The output sink is the sequence of bytes written so far; \<^verbatim>\<open>write\<close> appends.\<close>

definition save_converted_mp3 :: "bytes \<Rightarrow> bytes option \<Rightarrow> error + bytes" where
  "save_converted_mp3 output content =
     (case content of
        None \<Rightarrow> Inl (TypeError ''Empty mp3 content to save.'')
      | Some c \<Rightarrow> Inr (output @ c))"

section \<open>\<^verbatim>\<open>get_host_uri\<close>\<close>

text \<open>\<^verbatim>\<open>str.split\<close> with a separator: at every occurrence, never an empty result.\<close>

fun str_split :: "char \<Rightarrow> string \<Rightarrow> string list" where
  "str_split sep [] = [[]]"
| "str_split sep (c # cs) =
     (if c = sep then [] # str_split sep cs
      else (case str_split sep cs of
              [] \<Rightarrow> [[c]]
            | p # ps \<Rightarrow> (c # p) # ps))"

fun str_join :: "string \<Rightarrow> string list \<Rightarrow> string" where
  "str_join sep [] = []"
| "str_join sep [p] = p"
| "str_join sep (p # q # ps) = p @ sep @ str_join sep (q # ps)"

text \<open>
  The loop of \<^verbatim>\<open>get_host_uri\<close> over the indices of \<^verbatim>\<open>range(media_sequence)\<close>.
  \<^verbatim>\<open>keys[i]\<close> beyond the list raises \<^verbatim>\<open>IndexError\<close>, which is not caught; a key that is
  \<^verbatim>\<open>None\<close>, or whose \<^verbatim>\<open>uri\<close> is \<^verbatim>\<open>None\<close>, raises \<^verbatim>\<open>AttributeError\<close>, which is caught
  and continues the loop.
\<close>

fun host_scan :: "m3u8_key option list \<Rightarrow> nat list \<Rightarrow> error + string option" where
  "host_scan ks [] = Inr None"
| "host_scan ks (i # rest) =
     (if length ks \<le> i then Inl (IndexError ''list index out of range'')
      else (case ks ! i of
              None \<Rightarrow> host_scan ks rest
            | Some k \<Rightarrow>
              (case uri k of
                 None \<Rightarrow> host_scan ks rest
               | Some key_uri \<Rightarrow> Inr (Some (str_join ''/'' (butlast (str_split CHR ''/'' key_uri)))))))"

definition get_host_uri :: "m3u8_obj \<Rightarrow> error + string option" where
  "get_host_uri obj = host_scan (keys obj) [0 ..< nat (media_sequence obj)]"

section \<open>\<^verbatim>\<open>get_ts_from_m3u8\<close>\<close>

text \<open>
  \<^verbatim>\<open>AES.new(key, AES.MODE_CBC, iv=iv)\<close> of PyCryptodome checks the length of the key
  and then of the IV; \<^verbatim>\<open>decrypt\<close> of the cipher object checks that the data is a whole
  number of blocks. Each check raises \<^verbatim>\<open>ValueError\<close>. The cipher object is used for one
  call of \<^verbatim>\<open>decrypt\<close>, so it is modelled by that function.
\<close>

definition aes_new_cbc :: "env \<Rightarrow> bytes \<Rightarrow> bytes \<Rightarrow> error + (bytes \<Rightarrow> error + bytes)" where
  "aes_new_cbc e key iv =
     (if length key \<notin> {16, 24, 32} then Inl (ValueError ''Incorrect AES key length'')
      else if length iv \<noteq> 16 then Inl (ValueError ''Incorrect IV length'')
      else Inr (\<lambda>data.
             if length data mod 16 \<noteq> 0
             then Inl (ValueError ''Data must be padded to 16 byte boundary in CBC mode'')
             else Inr (cbc_decrypt e key iv data)))"

text \<open>\<^verbatim>\<open>os.path.join\<close> of two components, on a POSIX system.\<close>

definition os_path_join :: "string \<Rightarrow> string \<Rightarrow> string" where
  "os_path_join a b =
     (if b \<noteq> [] \<and> hd b = CHR ''/'' then b
      else if a = [] \<or> last a = CHR ''/'' then a @ b
      else a @ ''/'' @ b)"

text \<open>
  Lines 148-150: \<^verbatim>\<open>not key\<close> holds for \<^verbatim>\<open>None\<close> and for the empty byte string.
  A key whose \<^verbatim>\<open>uri\<close> is \<^verbatim>\<open>None\<close> makes \<^verbatim>\<open>read_bytes\<close> fail in \<^verbatim>\<open>open(None, "rb")\<close>
  with \<^verbatim>\<open>TypeError\<close>, before anything is read.
\<close>

definition fetch_key :: "env \<Rightarrow> m3u8_key \<Rightarrow> bytes option \<Rightarrow> event list \<Rightarrow> (error + bytes) \<times> event list" where
  "fetch_key e k key w =
     (if key = None \<or> key = Some []
      then (case uri k of
              None \<Rightarrow> (Inl (TypeError ''expected str, bytes or os.PathLike object, not NoneType''), w)
            | Some key_uri \<Rightarrow> read_bytes e key_uri True w)
      else (Inr (the key), w))"

text \<open>
  Lines 145-155: the choice of \<^verbatim>\<open>decrypt_func\<close> for segment \<open>i\<close>, with the key after
  the step. \<^verbatim>\<open>segment.key.method\<close> raises \<^verbatim>\<open>AttributeError\<close> when the segment has no key
  object.
\<close>

definition choose_decrypt ::
  "env \<Rightarrow> int \<Rightarrow> nat \<Rightarrow> m3u8_segment \<Rightarrow> bytes option \<Rightarrow> event list
     \<Rightarrow> (error + (bytes \<Rightarrow> error + bytes) \<times> bytes option) \<times> event list" where
  "choose_decrypt e media_seq i segment key w =
     (case seg_key segment of
        None \<Rightarrow> (Inl (AttributeError ''NoneType object has no attribute method''), w)
      | Some k \<Rightarrow>
        if key_method k = ''AES-128''
        then (case fetch_key e k key w of
                (Inl err, w1) \<Rightarrow> (Inl err, w1)
              | (Inr kb, w1) \<Rightarrow>
                (case segment_iv media_seq i of
                   Inl err \<Rightarrow> (Inl err, w1)
                 | Inr iv \<Rightarrow>
                   (case aes_new_cbc e kb iv of
                      Inl err \<Rightarrow> (Inl err, w1)
                    | Inr decrypt \<Rightarrow> (Inr (decrypt, Some kb), w1))))
        else (Inr (\<lambda>x. Inr x, key), w))"

text \<open>Lines 145-159: one turn of the loop, on the buffer and the key.\<close>

definition segment_body ::
  "env \<Rightarrow> string \<Rightarrow> int \<Rightarrow> nat \<Rightarrow> m3u8_segment \<Rightarrow> bytes \<times> bytes option \<Rightarrow> event list
     \<Rightarrow> (error + bytes \<times> bytes option) \<times> event list" where
  "segment_body e host_uri media_seq i segment st w =
     (case st of (ts_content, key) \<Rightarrow>
      (case choose_decrypt e media_seq i segment key w of
         (Inl err, w1) \<Rightarrow> (Inl err, w1)
       | (Inr (decrypt_func, key1), w1) \<Rightarrow>
         (let ts_url = os_path_join host_uri (seg_uri segment) in
          case read_bytes e ts_url True w1 of
            (Inl err, w2) \<Rightarrow> (Inl err, w2)
          | (Inr data, w2) \<Rightarrow>
            (case decrypt_func data of
               Inl err \<Rightarrow> (Inl err, w2)
             | Inr plain \<Rightarrow> (Inr (ts_content @ plain, key1), w2)))))"

fun segments_loop ::
  "env \<Rightarrow> string \<Rightarrow> int \<Rightarrow> (nat \<times> m3u8_segment) list \<Rightarrow> bytes \<times> bytes option \<Rightarrow> event list
     \<Rightarrow> (error + bytes) \<times> event list" where
  "segments_loop e host_uri media_seq [] st w = (Inr (fst st), w)"
| "segments_loop e host_uri media_seq ((i, segment) # rest) st w =
     (case segment_body e host_uri media_seq i segment st w of
        (Inl err, w1) \<Rightarrow> (Inl err, w1)
      | (Inr st1, w1) \<Rightarrow> segments_loop e host_uri media_seq rest st1 w1)"

text \<open>
  Line 137: \<^verbatim>\<open>host_uri or get_host_uri(m3u8_obj)\<close> keeps a host that is neither
  \<^verbatim>\<open>None\<close> nor empty, and asks the playlist otherwise.
\<close>

definition resolve_host :: "m3u8_obj \<Rightarrow> string option \<Rightarrow> error + string option" where
  "resolve_host obj host_uri =
     (case host_uri of
        None \<Rightarrow> get_host_uri obj
      | Some h \<Rightarrow> if h = [] then get_host_uri obj else Inr (Some h))"

definition get_ts_from_m3u8 ::
  "env \<Rightarrow> m3u8_obj \<Rightarrow> string option \<Rightarrow> event list \<Rightarrow> (error + bytes) \<times> event list" where
  "get_ts_from_m3u8 e obj host_uri w =
     (let media_seq = media_sequence obj in
      case resolve_host obj host_uri of
        Inl err \<Rightarrow> (Inl err, w)
      | Inr None \<Rightarrow> (Inl (TypeError ''Host URL is not set.''), w)
      | Inr (Some h) \<Rightarrow>
          segments_loop e h media_seq (enumerate 0 (segments obj)) ([], None) w)"

section \<open>\<^verbatim>\<open>convert\<close>\<close>

text \<open>The result, the output sink and the events after the call.\<close>

definition convert ::
  "env \<Rightarrow> m3u8_obj \<Rightarrow> bytes \<Rightarrow> event list \<Rightarrow> (error + unit) \<times> bytes \<times> event list" where
  "convert e obj output w =
     (case get_ts_from_m3u8 e obj None w of
        (Inl err, w1) \<Rightarrow> (Inl err, output, w1)
      | (Inr ts_bytes, w1) \<Rightarrow>
        (case save_converted_mp3 output (Some ts_bytes) of
           Inl err \<Rightarrow> (Inl err, output, w1)
         | Inr output1 \<Rightarrow> (Inr (), output1, w1)))"

section \<open>Big-endian byte strings\<close>

text \<open>
  The reading of the specification, to compare \<open>segment_iv\<close> with: \<open>big_endian k n\<close>
  is the number \<open>n\<close> written in \<open>k\<close> bytes, most significant first, and \<open>be_value\<close>
  reads such a byte string back. \<open>hex_fixed k n\<close> is \<open>n\<close> in exactly \<open>k\<close>
  hexadecimal digits.
\<close>

fun hex_fixed :: "nat \<Rightarrow> nat \<Rightarrow> string" where
  "hex_fixed 0 n = []"
| "hex_fixed (Suc k) n = hex_fixed k (n div 16) @ [hex_digit (n mod 16)]"

fun big_endian :: "nat \<Rightarrow> nat \<Rightarrow> bytes" where
  "big_endian 0 n = []"
| "big_endian (Suc k) n = big_endian k (n div 256) @ [of_nat (n mod 256)]"

definition be_value :: "bytes \<Rightarrow> nat" where
  "be_value bs = foldl (\<lambda>acc b. 256 * acc + unat b) 0 bs"

section \<open>What a run reads\<close>

text \<open>
  Notions for stating the properties. \<open>content_at\<close> is what \<^verbatim>\<open>read_bytes\<close> returns
  for a location; \<open>read_event\<close> is the library call that reading a location makes, and
  \<open>read_events\<close> the calls that \<^verbatim>\<open>read_bytes\<close> makes for it: that one call, or none
  when \<^verbatim>\<open>urlparse\<close> rejects the location. \<open>segment_url\<close> is the location of a
  segment under a host; \<open>is_aes\<close> says that a segment has a key object with method
  \<^verbatim>\<open>AES-128\<close>; \<open>key_truthy\<close> is the negation of \<^verbatim>\<open>not key\<close>.
\<close>

definition content_at :: "env \<Rightarrow> string \<Rightarrow> error + bytes" where
  "content_at e loc =
     (case is_valid e loc None of
        Inl err \<Rightarrow> Inl err
      | Inr is_url \<Rightarrow> if is_url then urlopen e loc else open_rb e loc)"

definition read_event :: "env \<Rightarrow> string \<Rightarrow> event" where
  "read_event e loc = (if is_valid e loc None = Inr True then Urlopen loc else OpenRb loc)"

definition read_events :: "env \<Rightarrow> string \<Rightarrow> event list" where
  "read_events e loc = (case is_valid e loc None of Inl err \<Rightarrow> [] | Inr is_url \<Rightarrow> [read_event e loc])"

definition segment_url :: "string \<Rightarrow> m3u8_segment \<Rightarrow> string" where
  "segment_url h s = os_path_join h (seg_uri s)"

definition is_aes :: "m3u8_segment \<Rightarrow> bool" where
  "is_aes s = (case seg_key s of None \<Rightarrow> False | Some k \<Rightarrow> key_method k = ''AES-128'')"

fun key_truthy :: "bytes option \<Rightarrow> bool" where
  "key_truthy None = False"
| "key_truthy (Some kb) = (kb \<noteq> [])"

text \<open>
  The reading of the specification for the key: it is fetched for the first AES-128
  segment met while no key is held, and never again. \<open>key_reads\<close> is the key fetch of
  one segment, \<open>expected_reads\<close> the reads of a whole run, in order.
\<close>

definition key_reads :: "env \<Rightarrow> bool \<Rightarrow> m3u8_segment \<Rightarrow> event list" where
  "key_reads e have_key s =
     (case seg_key s of
        None \<Rightarrow> []
      | Some k \<Rightarrow>
        if key_method k = ''AES-128'' \<and> \<not> have_key
        then (case uri k of None \<Rightarrow> [] | Some key_uri \<Rightarrow> [read_event e key_uri])
        else [])"

fun expected_reads :: "env \<Rightarrow> string \<Rightarrow> bool \<Rightarrow> m3u8_segment list \<Rightarrow> event list" where
  "expected_reads e h have_key [] = []"
| "expected_reads e h have_key (s # rest) =
     key_reads e have_key s @ [read_event e (segment_url h s)]
       @ expected_reads e h (have_key \<or> is_aes s) rest"

text \<open>The error of line 139, and a segment whose key cannot be obtained.\<close>

definition host_error :: error where
  "host_error = TypeError ''Host URL is not set.''"


section \<open>The conversion as specified\<close>

text \<open>
  The reading of the specification for the bytes produced, to compare
  \<^verbatim>\<open>get_ts_from_m3u8\<close> with. Segments are numbered from 0 in playlist order; the
  absolute sequence number of segment \<open>i\<close> is \<open>i + media_sequence\<close>. \<open>key_for\<close> is
  the key in use at a segment: the key held, or else the content behind the key URI of the
  segment. \<open>segment_spec\<close> gives the bytes of one segment and the key held afterwards:
  a segment that is not AES-128 contributes its content unchanged; an AES-128 segment
  contributes its content decrypted with the key in use and with the absolute sequence
  number written in 16 bytes, most significant first, as IV, provided that number fits
  in 16 bytes and key and content have lengths the cipher accepts. \<open>pipeline_spec\<close>
  concatenates the bytes of the segments in order; \<open>None\<close> means that the conversion
  fails.
\<close>

definition key_for :: "env \<Rightarrow> bytes option \<Rightarrow> m3u8_segment \<Rightarrow> bytes option" where
  "key_for e key s =
     (if key_truthy key then key
      else (case seg_key s of
              None \<Rightarrow> None
            | Some k \<Rightarrow>
              (case uri k of
                 None \<Rightarrow> None
               | Some key_uri \<Rightarrow>
                 (case content_at e key_uri of Inl err \<Rightarrow> None | Inr kb \<Rightarrow> Some kb))))"

definition segment_spec ::
  "env \<Rightarrow> string \<Rightarrow> int \<Rightarrow> nat \<Rightarrow> bytes option \<Rightarrow> m3u8_segment \<Rightarrow> (bytes \<times> bytes option) option" where
  "segment_spec e h ms i key s =
     (case content_at e (segment_url h s) of
        Inl err \<Rightarrow> None
      | Inr data \<Rightarrow>
          if is_aes s
          then (case key_for e key s of
                  None \<Rightarrow> None
                | Some kb \<Rightarrow>
                    if length kb \<in> {16, 24, 32} \<and> 0 \<le> int i + ms \<and> int i + ms < 2 ^ 128
                       \<and> length data mod 16 = 0
                    then Some (cbc_decrypt e kb (big_endian 16 (nat (int i + ms))) data, Some kb)
                    else None)
          else Some (data, key))"

fun pipeline_spec ::
  "env \<Rightarrow> string \<Rightarrow> int \<Rightarrow> nat \<Rightarrow> bytes option \<Rightarrow> m3u8_segment list \<Rightarrow> bytes option" where
  "pipeline_spec e h ms i key [] = Some []"
| "pipeline_spec e h ms i key (s # rest) =
     (case segment_spec e h ms i key s of
        None \<Rightarrow> None
      | Some (plain, key1) \<Rightarrow> map_option ((@) plain) (pipeline_spec e h ms (Suc i) key1 rest))"

section \<open>Fetching the key of a segment\<close>




section \<open>A sample environment\<close>

text \<open>
  Concrete surroundings for running the model on examples: a stand-in for \<^verbatim>\<open>urlparse\<close>
  that recognises locations starting with \<^verbatim>\<open>http://\<close>, takes the network location up
  to the first of \<^verbatim>\<open>/\<close>, \<^verbatim>\<open>?\<close> and \<^verbatim>\<open>#\<close>, and rejects one that has one of
  the brackets \<^verbatim>\<open>[\<close> and \<^verbatim>\<open>]\<close> without the other, as \<^verbatim>\<open>urlparse\<close> does; a
  network and a file system given as association lists; and a stand-in cipher, by default
  the one that returns the ciphertext.
\<close>

definition sample_urlparse :: "string \<Rightarrow> error + parse_result" where
  "sample_urlparse u =
     (if take 7 u = ''http://''
      then (let in_netloc = (\<lambda>c. c \<noteq> CHR ''/'' \<and> c \<noteq> CHR ''?'' \<and> c \<noteq> CHR ''#'');
                nl = takeWhile in_netloc (drop 7 u)
            in if (CHR ''['' \<in> set nl) \<noteq> (CHR '']'' \<in> set nl)
               then Inl (ValueError ''Invalid IPv6 URL'')
               else Inr \<lparr>scheme = ''http'', netloc = nl,
                         path = dropWhile in_netloc (drop 7 u),
                         params = [], query = [], fragment = []\<rparr>)
      else Inr \<lparr>scheme = [], netloc = [], path = u, params = [], query = [], fragment = []\<rparr>)"

definition lookup_bytes :: "(string \<times> bytes) list \<Rightarrow> string \<Rightarrow> error + bytes" where
  "lookup_bytes store loc =
     (case map_of store loc of None \<Rightarrow> Inl (OSError ''not found'') | Some b \<Rightarrow> Inr b)"

definition sample_env_with ::
  "(bytes \<Rightarrow> bytes \<Rightarrow> bytes \<Rightarrow> bytes) \<Rightarrow> (string \<times> bytes) list \<Rightarrow> (string \<times> bytes) list \<Rightarrow> env" where
  "sample_env_with cipher net files =
     \<lparr>urlparse = sample_urlparse, urlopen = lookup_bytes net, open_rb = lookup_bytes files,
      cbc_decrypt = cipher\<rparr>"

definition sample_env :: "(string \<times> bytes) list \<Rightarrow> (string \<times> bytes) list \<Rightarrow> env" where
  "sample_env net files = sample_env_with (\<lambda>key iv data. data) net files"

section \<open>Properties\<close>

subsection \<open>Saving the output\<close>

text \<open>
  C9: \<^verbatim>\<open>save_converted_mp3\<close> raises \<^verbatim>\<open>TypeError\<close> if and only if the content is
  \<^verbatim>\<open>None\<close> (and raises nothing else); for every content that is not \<^verbatim>\<open>None\<close> it
  appends the content, unchanged, to what the sink holds.
\<close>

theorem save_converted_mp3_spec:
  "((\<exists>msg. save_converted_mp3 output content = Inl (TypeError msg)) \<longleftrightarrow> content = None)
   \<and> ((\<exists>err. save_converted_mp3 output content = Inl err) \<longleftrightarrow> content = None)
   \<and> (\<forall>c. content = Some c \<longrightarrow> save_converted_mp3 output content = Inr (output @ c))"
  by (cases content) (simp_all add: save_converted_mp3_def)

theorem save_converted_mp3_spec_witness:
  "save_converted_mp3 [7] (Some [1, 2, 3]) = Inr [7, 1, 2, 3]
   \<and> (\<exists>msg. save_converted_mp3 [7] None = Inl (TypeError msg))"
  using save_converted_mp3_spec [of "[7]" "Some [1, 2, 3]"] save_converted_mp3_spec [of "[7]" None]
  by simp

subsection \<open>A playlist without segments\<close>

text \<open>
  C10: for a playlist with zero segments, when a host is supplied or found in the
  playlist, \<^verbatim>\<open>get_ts_from_m3u8\<close> returns the empty byte string and reads nothing.
\<close>

theorem empty_playlist_gives_empty_bytes:
  assumes "segments obj = []" and "resolve_host obj host_uri = Inr (Some h)"
  shows "get_ts_from_m3u8 e obj host_uri w = (Inr [], w)"
  using assms by (simp add: get_ts_from_m3u8_def enumerate_eq_zip)

theorem empty_playlist_gives_empty_bytes_witness:
  "get_ts_from_m3u8 (sample_env [] []) \<lparr>media_sequence = 0, keys = [], segments = []\<rparr> (Some ''http://h/a'') []
     = (Inr [], [])"
  using empty_playlist_gives_empty_bytes
    [of "\<lparr>media_sequence = 0, keys = [], segments = []\<rparr>" "Some ''http://h/a''" "''http://h/a''" "sample_env [] []" "[]"]
  by (simp add: resolve_host_def)

subsection \<open>Network or local file\<close>

text \<open>
  C6, as the code has it: \<^verbatim>\<open>read_bytes\<close> has three outcomes. When \<^verbatim>\<open>urlparse\<close>
  accepts the location and gives it both a scheme and a network location, the bytes come
  from the network (\<^verbatim>\<open>urlopen\<close>, called once); when \<^verbatim>\<open>urlparse\<close> accepts it and
  one of the two is empty, the location is opened as a local file (once); when
  \<^verbatim>\<open>urlparse\<close> rejects the location, its \<^verbatim>\<open>ValueError\<close> is raised and nothing is
  read, from the network or from a file.
\<close>

theorem read_bytes_by_url_syntax:
  "(\<forall>err. urlparse e pth = Inl err \<longrightarrow> read_bytes e pth silent w = (Inl err, w))
   \<and> (\<forall>token. urlparse e pth = Inr token \<longrightarrow>
          is_valid e pth None = Inr (scheme token \<noteq> [] \<and> netloc token \<noteq> [])
          \<and> (scheme token \<noteq> [] \<and> netloc token \<noteq> [] \<longrightarrow>
                read_bytes e pth silent w
                  = (urlopen e pth, w @ (if silent then [] else [Print pth]) @ [Urlopen pth]))
          \<and> (\<not> (scheme token \<noteq> [] \<and> netloc token \<noteq> []) \<longrightarrow>
                read_bytes e pth silent w = (open_rb e pth, w @ [OpenRb pth])))"
  by (simp add: is_valid_def read_bytes_def)

theorem read_bytes_by_url_syntax_witness:
  "read_bytes (sample_env [(''http://h/a.ts'', [1])] [(''a.ts'', [2])]) ''http://h/a.ts'' True []
     = (Inr [1], [Urlopen ''http://h/a.ts''])
   \<and> read_bytes (sample_env [(''http://h/a.ts'', [1])] [(''a.ts'', [2])]) ''a.ts'' True []
     = (Inr [2], [OpenRb ''a.ts''])
   \<and> read_bytes (sample_env [(''http://h/a.ts'', [1])] [(''a.ts'', [2])]) ''http://[h/a.ts'' True []
     = (Inl (ValueError ''Invalid IPv6 URL''), [])"
  using read_bytes_by_url_syntax [of "sample_env [(''http://h/a.ts'', [1])] [(''a.ts'', [2])]" "''http://h/a.ts''" True "[]"]
    read_bytes_by_url_syntax [of "sample_env [(''http://h/a.ts'', [1])] [(''a.ts'', [2])]" "''a.ts''" True "[]"]
    read_bytes_by_url_syntax [of "sample_env [(''http://h/a.ts'', [1])] [(''a.ts'', [2])]" "''http://[h/a.ts''" True "[]"]
  by (simp add: sample_env_def sample_env_with_def sample_urlparse_def Let_def lookup_bytes_def)

text \<open>
  The claim of C6 as stated fails at a location that \<^verbatim>\<open>urlparse\<close> rejects: it is not
  an absolute URL, yet it is not read from local storage either, although a file of
  that name is there.
\<close>

theorem rejected_url_counterexample:
  "read_bytes (sample_env [] [(''http://[x/a].ts'', [1])]) ''http://[x/a].ts'' True []
     = (Inl (ValueError ''Invalid IPv6 URL''), [])"
  by (simp add: read_bytes_def is_valid_def sample_env_def sample_env_with_def
      sample_urlparse_def Let_def)

subsection \<open>Hexadecimal digits and bytes\<close>

lemma hex_val_hex_digit: "d < 16 \<Longrightarrow> hex_val (hex_digit d) = Some d"
proof -
  assume "d < 16"
  then have "d = 0 \<or> d = 1 \<or> d = 2 \<or> d = 3 \<or> d = 4 \<or> d = 5 \<or> d = 6 \<or> d = 7
    \<or> d = 8 \<or> d = 9 \<or> d = 10 \<or> d = 11 \<or> d = 12 \<or> d = 13 \<or> d = 14 \<or> d = 15"
    by presburger
  then show ?thesis
    by (elim disjE) (simp_all add: hex_digit_def hex_val_def)
qed

lemma hex_digit_0: "hex_digit 0 = CHR ''0''"
  by (simp add: hex_digit_def)

lemma hex_fixed_0: "hex_fixed k 0 = replicate k CHR ''0''"
  by (induction k) (simp_all add: hex_digit_0 replicate_append_same)

lemma length_hex_fixed: "length (hex_fixed k n) = k"
  by (induction k arbitrary: n) simp_all

lemma length_to_hex_pos: "0 < length (to_hex n)"
  by (subst to_hex.simps) simp

lemma to_hex_pad: "n < 16 ^ k \<Longrightarrow> 0 < k \<Longrightarrow> replicate (k - length (to_hex n)) CHR ''0'' @ to_hex n = hex_fixed k n"
proof (induction k arbitrary: n)
  case 0
  then show ?case by simp
next
  case (Suc k)
  show ?case
  proof (cases "n < 16")
    case True
    then show ?thesis
      by (simp add: to_hex.simps [of n] hex_fixed_0)
  next
    case False
    with Suc.prems have k: "0 < k" by (cases k) auto
    from Suc.prems have "n div 16 < 16 ^ k"
      by (simp add: less_mult_imp_div_less mult.commute)
    from Suc.IH [OF this k] False show ?thesis
      by (simp add: to_hex.simps [of n] Suc_diff_le)
  qed
qed

lemma to_hex_long: "16 ^ k \<le> n \<Longrightarrow> k < length (to_hex n)"
proof (induction k arbitrary: n)
  case 0
  show ?case using length_to_hex_pos [of n] by simp
next
  case (Suc k)
  have a: "(16::nat) \<le> 16 * 16 ^ k" by simp
  from Suc.prems have b: "16 * 16 ^ k \<le> n" by simp
  from le_trans [OF a b] have "16 \<le> n" .
  moreover from Suc.prems have "16 ^ k \<le> n div 16"
    by (simp add: less_eq_div_iff_mult_less_eq mult.commute)
  ultimately show ?case using Suc.IH [of "n div 16"]
    by (simp add: to_hex.simps [of n])
qed

lemma to_hex_bound: "n < 16 ^ length (to_hex n)"
proof (induction n rule: to_hex.induct)
  case (1 n)
  show ?case
  proof (cases "n < 16")
    case True
    then show ?thesis by (simp add: to_hex.simps [of n])
  next
    case False
    from 1 [OF False] have "n div 16 < 16 ^ length (to_hex (n div 16))" .
    then have "n < 16 * 16 ^ length (to_hex (n div 16))"
      by (simp add: div_less_iff_less_mult mult.commute)
    with False show ?thesis by (simp add: to_hex.simps [of n])
  qed
qed

lemma to_hex_eq_fixed: "to_hex n = hex_fixed (length (to_hex n)) n"
  using to_hex_pad [OF to_hex_bound length_to_hex_pos, of n] by simp

lemma a2b_pairs_append:
  "a2b_pairs xs = Some bs \<Longrightarrow> a2b_pairs ys = Some cs \<Longrightarrow> a2b_pairs (xs @ ys) = Some (bs @ cs)"
  by (induction xs arbitrary: bs rule: a2b_pairs.induct) (auto split: option.splits)

lemma byte_of_nibbles: "16 * (n div 16 mod 16) + n mod 16 = n mod (256::nat)"
  using mod_mult2_eq [of n 16 16] by simp

lemma a2b_pairs_hex_fixed: "a2b_pairs (hex_fixed (2 * k) n) = Some (big_endian k n)"
proof (induction k arbitrary: n)
  case 0
  then show ?case by simp
next
  case (Suc k)
  have split: "hex_fixed (2 * Suc k) n
      = hex_fixed (2 * k) (n div 256) @ [hex_digit (n div 16 mod 16), hex_digit (n mod 16)]"
  proof -
    have "n div 16 div 16 = n div 256" using div_mult2_eq [of n 16 16] by simp
    then show ?thesis by simp
  qed
  have last2: "a2b_pairs [hex_digit (n div 16 mod 16), hex_digit (n mod 16)] = Some [of_nat (n mod 256)]"
    by (simp add: hex_val_hex_digit byte_of_nibbles)
  show ?case
    unfolding split using a2b_pairs_append [OF Suc.IH [of "n div 256"] last2] by simp
qed

lemma length_big_endian: "length (big_endian k n) = k"
  by (induction k arbitrary: n) simp_all

lemma be_value_append: "be_value (bs @ [b]) = 256 * be_value bs + unat b"
  by (simp add: be_value_def)

lemma be_value_big_endian: "be_value (big_endian k n) = n mod 256 ^ k"
proof (induction k arbitrary: n)
  case 0
  then show ?case by (simp add: be_value_def)
next
  case (Suc k)
  have u: "unat (of_nat (n mod 256) :: byte) = n mod 256"
    by (simp add: unat_of_nat)
  have m: "n mod 256 ^ Suc k = 256 * (n div 256 mod 256 ^ k) + n mod 256"
    by (simp only: power_Suc mod_mult2_eq)
  have "be_value (big_endian (Suc k) n) = 256 * be_value (big_endian k (n div 256)) + n mod 256"
    by (simp only: big_endian.simps be_value_append u)
  then show ?case
    by (simp only: Suc.IH m)
qed

lemma big_endian_0: "big_endian k 0 = replicate k 0"
  by (induction k) (simp_all add: replicate_append_same)

lemma format_032x_in_range:
  assumes "0 \<le> ind" and "ind < 2 ^ 128"
  shows "format_032x ind = hex_fixed 32 (nat ind)"
proof -
  have "(2::int) ^ 128 = 16 ^ 32" by simp
  with assms have "nat ind < 16 ^ 32"
    by (metis nat_less_numeral_power_cancel_iff)
  from to_hex_pad [OF this] assms(1) show ?thesis
    by (simp add: format_032x_def)
qed

lemma segment_iv_in_range:
  assumes "0 \<le> int i + ms" and "int i + ms < 2 ^ 128"
  shows "segment_iv ms i = Inr (big_endian 16 (nat (int i + ms)))"
proof -
  have "a2b_pairs (hex_fixed (2 * 16) (nat (int i + ms))) = Some (big_endian 16 (nat (int i + ms)))"
    by (rule a2b_pairs_hex_fixed)
  then show ?thesis
    by (simp add: segment_iv_def format_032x_in_range [OF assms] a2b_hex_def length_hex_fixed)
qed

lemma be_value_in_range:
  assumes "0 \<le> ind" and "ind < 2 ^ 128"
  shows "be_value (big_endian 16 (nat ind)) = nat ind"
proof -
  have "(2::int) ^ 128 = 256 ^ 16" by simp
  with assms have "nat ind < 256 ^ 16"
    by (metis nat_less_numeral_power_cancel_iff)
  then show ?thesis by (simp add: be_value_big_endian)
qed

lemma format_032x_long:
  assumes "2 ^ 128 \<le> ind"
  shows "format_032x ind = to_hex (nat ind)" and "32 < length (to_hex (nat ind))"
proof -
  have "(2::int) ^ 128 = 16 ^ 32" by simp
  with assms have "16 ^ 32 \<le> nat ind"
    by (metis numeral_power_le_nat_cancel_iff)
  from to_hex_long [OF this] show long: "32 < length (to_hex (nat ind))" .
  have "(0::int) \<le> 2 ^ 128" by simp
  with assms have "0 \<le> ind" by linarith
  with long show "format_032x ind = to_hex (nat ind)"
    by (simp add: format_032x_def)
qed

lemma a2b_pairs_to_hex_even:
  assumes "length (to_hex n) = 2 * k"
  shows "a2b_pairs (to_hex n) = Some (big_endian k n)" and "be_value (big_endian k n) = n"
proof -
  have fixed: "to_hex n = hex_fixed (2 * k) n"
    using to_hex_eq_fixed [of n] assms by simp
  then show "a2b_pairs (to_hex n) = Some (big_endian k n)"
    by (simp only: a2b_pairs_hex_fixed)
  have "n < 16 ^ (2 * k)"
    using to_hex_bound [of n] assms by simp
  also have "(16::nat) ^ (2 * k) = 256 ^ k"
    by (simp add: power_mult)
  finally show "be_value (big_endian k n) = n"
    by (simp add: be_value_big_endian)
qed

lemma to_hex_power: "to_hex (16 ^ k) = hex_digit 1 # replicate k CHR ''0''"
proof (induction k)
  case 0
  show ?case by (simp add: to_hex.simps [of "Suc 0"])
next
  case (Suc k)
  have "\<not> (16::nat) ^ Suc k < 16" by simp
  then have "to_hex (16 ^ Suc k) = to_hex (16 ^ Suc k div 16) @ [hex_digit (16 ^ Suc k mod 16)]"
    by (subst to_hex.simps) simp
  then show ?case
    by (simp add: Suc.IH hex_digit_0 replicate_append_same)
qed

lemma big_endian_shift: "d < 256 \<Longrightarrow> big_endian (Suc k) (d * 256 ^ k) = of_nat d # replicate k 0"
proof (induction k)
  case 0
  then show ?case by simp
next
  case (Suc k)
  have "big_endian (Suc (Suc k)) (d * 256 ^ Suc k)
      = big_endian (Suc k) (d * 256 ^ Suc k div 256) @ [of_nat (d * 256 ^ Suc k mod 256)]"
    by (simp only: big_endian.simps)
  also have "d * 256 ^ Suc k div 256 = d * 256 ^ k" by simp
  also have "d * 256 ^ Suc k mod 256 = 0" by simp
  finally show ?case
    using Suc by (simp add: replicate_append_same)
qed

subsection \<open>The IV of a segment\<close>

text \<open>
  C5, as the code has it: there is no bounds check in the derivation. For a number of
  more than 32 hexadecimal digits the value is never cut down to 16 bytes:
  an odd number of digits makes \<^verbatim>\<open>a2b_hex\<close> raise \<^verbatim>\<open>binascii.Error\<close>
  (a \<^verbatim>\<open>ValueError\<close>); an even number of digits gives a byte string longer than 16
  bytes that holds the whole number, and it is \<^verbatim>\<open>AES.new\<close> that then rejects
  the IV for its length with \<^verbatim>\<open>ValueError\<close>.
\<close>

theorem iv_beyond_16_bytes:
  assumes "2 ^ 128 \<le> int i + ms"
  shows "(odd (length (to_hex (nat (int i + ms))))
            \<longrightarrow> segment_iv ms i = Inl (ValueError ''Odd-length string''))
    \<and> (even (length (to_hex (nat (int i + ms))))
            \<longrightarrow> (\<exists>iv. segment_iv ms i = Inr iv \<and> 16 < length iv
                    \<and> be_value iv = nat (int i + ms)
                    \<and> (\<forall>e key. \<exists>msg. aes_new_cbc e key iv = Inl (ValueError msg))))"
proof (intro conjI impI)
  note fmt = format_032x_long [OF assms]
  show "segment_iv ms i = Inl (ValueError ''Odd-length string'')"
    if "odd (length (to_hex (nat (int i + ms))))"
    using that by (simp add: segment_iv_def fmt(1) a2b_hex_def)
  show "\<exists>iv. segment_iv ms i = Inr iv \<and> 16 < length iv \<and> be_value iv = nat (int i + ms)
          \<and> (\<forall>e key. \<exists>msg. aes_new_cbc e key iv = Inl (ValueError msg))"
    if ev: "even (length (to_hex (nat (int i + ms))))"
  proof -
    from ev obtain k where k: "length (to_hex (nat (int i + ms))) = 2 * k"
      by (auto elim: evenE)
    note pairs = a2b_pairs_to_hex_even [OF k]
    from k fmt(2) have long: "16 < k" by simp
    have "segment_iv ms i = Inr (big_endian k (nat (int i + ms)))"
      using ev by (simp add: segment_iv_def fmt(1) a2b_hex_def pairs(1))
    moreover have "\<exists>msg. aes_new_cbc e key (big_endian k (nat (int i + ms))) = Inl (ValueError msg)"
      for e key
      using long by (simp add: aes_new_cbc_def length_big_endian)
    ultimately show ?thesis
      using long pairs(2) by (simp add: length_big_endian)
  qed
qed

theorem iv_beyond_16_bytes_witness:
  "segment_iv (16 ^ 32) 0 = Inl (ValueError ''Odd-length string'')
   \<and> (\<exists>iv. segment_iv (16 ^ 33) 0 = Inr iv \<and> 16 < length iv \<and> be_value iv = 16 ^ 33)"
proof -
  have a: "2 ^ 128 \<le> int 0 + 16 ^ 32" by simp
  have b: "2 ^ 128 \<le> int 0 + 16 ^ 33" by simp
  have na: "nat (int 0 + 16 ^ 32) = 16 ^ 32" by simp
  have nb: "nat (int 0 + 16 ^ 33) = 16 ^ 33" by simp
  have la: "odd (length (to_hex (16 ^ 32)))" by (simp only: to_hex_power) simp
  have lb: "even (length (to_hex (16 ^ 33)))" by (simp only: to_hex_power) simp
  from iv_beyond_16_bytes [OF a] la
  have "segment_iv (16 ^ 32) 0 = Inl (ValueError ''Odd-length string'')"
    by (simp only: na) simp
  moreover from iv_beyond_16_bytes [OF b] lb
  have "\<exists>iv. segment_iv (16 ^ 33) 0 = Inr iv \<and> 16 < length iv \<and> be_value iv = 16 ^ 33"
    by (simp only: nb) blast
  ultimately show ?thesis by simp
qed

text \<open>
  The claim of C5 as stated fails at \<open>16 ^ 33\<close>, a number of 34 hexadecimal
  digits: the derivation returns 17 bytes and raises nothing.
\<close>

theorem iv_overlong_counterexample:
  "2 ^ 128 \<le> int 0 + 16 ^ 33 \<and> segment_iv (16 ^ 33) 0 = Inr (16 # replicate 16 0)"
proof
  show big: "2 ^ 128 \<le> int 0 + 16 ^ 33" by simp
  have n: "nat (int 0 + 16 ^ 33) = 16 ^ 33" by simp
  have len: "length (to_hex (16 ^ 33)) = 2 * 17"
    by (simp only: to_hex_power) simp
  have fmt: "format_032x (int 0 + 16 ^ 33) = to_hex (16 ^ 33)"
    using format_032x_long(1) [OF big] by (simp only: n)
  have "(16::nat) ^ 33 = 16 * 256 ^ 16" by simp
  then have "big_endian 17 (16 ^ 33) = big_endian (Suc 16) (16 * 256 ^ 16)" by simp
  also have "\<dots> = 16 # replicate 16 0"
    using big_endian_shift [of 16 16] by simp
  finally have bytes: "a2b_pairs (to_hex (16 ^ 33)) = Some (16 # replicate 16 0)"
    using a2b_pairs_to_hex_even(1) [OF len] by simp
  have "segment_iv (16 ^ 33) 0 = a2b_hex (to_hex (16 ^ 33))"
    by (simp only: segment_iv_def Let_def fmt)
  also have "\<dots> = Inr (16 # replicate 16 0)"
    by (simp only: a2b_hex_def len bytes) simp
  finally show "segment_iv (16 ^ 33) 0 = Inr (16 # replicate 16 0)" .
qed

subsection \<open>The loop over the segments\<close>

lemma read_bytes_silent: "read_bytes e loc True w = (content_at e loc, w @ read_events e loc)"
  by (simp add: read_bytes_def content_at_def read_event_def read_events_def split: sum.splits)

lemma read_events_cases: "read_events e loc = [] \<or> read_events e loc = [read_event e loc]"
  by (simp add: read_events_def split: sum.splits)

lemma read_events_done: "content_at e loc = Inr d \<Longrightarrow> read_events e loc = [read_event e loc]"
  by (simp add: read_events_def content_at_def split: sum.splits)

lemma a2b_hex_error: "a2b_hex s = Inl err \<Longrightarrow> \<exists>msg. err = ValueError msg"
  by (auto simp add: a2b_hex_def split: if_splits option.splits)

lemma segment_iv_error: "segment_iv ms i = Inl err \<Longrightarrow> \<exists>msg. err = ValueError msg"
  by (auto simp add: segment_iv_def dest: a2b_hex_error)

lemma aes_new_cbc_error: "aes_new_cbc e kb iv = Inl err \<Longrightarrow> \<exists>msg. err = ValueError msg"
  by (auto simp add: aes_new_cbc_def split: if_splits)

lemma aes_new_cbc_key: "aes_new_cbc e kb iv = Inr dec \<Longrightarrow> kb \<noteq> []"
  by (auto simp add: aes_new_cbc_def split: if_splits)

lemma aes_decrypt_error:
  "aes_new_cbc e kb iv = Inr dec \<Longrightarrow> dec d = Inl err \<Longrightarrow> \<exists>msg. err = ValueError msg"
  by (auto simp add: aes_new_cbc_def split: if_splits)

text \<open>The body of the loop on a segment that is not AES-128.\<close>

lemma segment_body_plain:
  assumes "seg_key s = Some k" and "key_method k \<noteq> ''AES-128''"
  shows "segment_body e h ms i s (ts, key) w =
    (case content_at e (segment_url h s) of
       Inl err \<Rightarrow> (Inl err, w @ read_events e (segment_url h s))
     | Inr d \<Rightarrow> (Inr (ts @ d, key), w @ [read_event e (segment_url h s)]))"
proof (cases "content_at e (segment_url h s)")
  case (Inl err)
  with assms show ?thesis
    by (simp add: segment_body_def choose_decrypt_def read_bytes_silent segment_url_def)
next
  case (Inr d)
  with assms read_events_done [OF Inr] show ?thesis
    by (simp add: segment_body_def choose_decrypt_def read_bytes_silent segment_url_def)
qed

lemma segment_body_no_key:
  assumes "seg_key s = None"
  shows "\<exists>err. segment_body e h ms i s (ts, key) w = (Inl err, w)"
  using assms by (simp add: segment_body_def choose_decrypt_def)

lemma fetch_key_not_host_error:
  assumes "\<forall>loc. content_at e loc \<noteq> Inl host_error"
  shows "fst (fetch_key e k key w) \<noteq> Inl host_error"
  using assms
  by (auto simp add: fetch_key_def read_bytes_silent host_error_def split: option.splits)

lemma choose_decrypt_not_host_error:
  assumes "\<forall>loc. content_at e loc \<noteq> Inl host_error"
  shows "fst (choose_decrypt e ms i s key w) \<noteq> Inl host_error"
proof (cases "seg_key s")
  case None
  then show ?thesis by (simp add: choose_decrypt_def host_error_def)
next
  case (Some k)
  show ?thesis
  proof (cases "key_method k = ''AES-128''")
    case False
    with Some show ?thesis by (simp add: choose_decrypt_def)
  next
    case True
    obtain rk w1 where fk: "fetch_key e k key w = (rk, w1)" by (cases "fetch_key e k key w")
    with fetch_key_not_host_error [OF assms, of k key w] have rk: "rk \<noteq> Inl host_error" by simp
    show ?thesis
    proof (cases rk)
      case (Inl err)
      with Some True fk rk show ?thesis by (simp add: choose_decrypt_def)
    next
      case (Inr kb)
      show ?thesis
      proof (cases "segment_iv ms i")
        case (Inl err)
        with segment_iv_error [OF Inl] Some True fk Inr show ?thesis
          by (auto simp add: choose_decrypt_def host_error_def)
      next
        case iv: (Inr iv)
        show ?thesis
        proof (cases "aes_new_cbc e kb iv")
          case (Inl err)
          with aes_new_cbc_error [OF Inl] Some True fk Inr iv show ?thesis
            by (auto simp add: choose_decrypt_def host_error_def)
        next
          case dec: (Inr dec)
          with Some True fk Inr iv show ?thesis by (simp add: choose_decrypt_def)
        qed
      qed
    qed
  qed
qed

lemma fetch_key_cached:
  assumes "key_truthy key"
  shows "fetch_key e k key w = (Inr (the key), w)"
  using assms by (cases key) (simp_all add: fetch_key_def)

lemma fetch_key_first:
  assumes "\<not> key_truthy key"
  shows "fetch_key e k key w =
    (case uri k of
       None \<Rightarrow> (Inl (TypeError ''expected str, bytes or os.PathLike object, not NoneType''), w)
     | Some key_uri \<Rightarrow> (content_at e key_uri, w @ read_events e key_uri))"
  using assms by (cases key) (simp_all add: fetch_key_def read_bytes_silent split: option.splits)

lemma fetch_key_reads:
  assumes "seg_key s = Some k" and "key_method k = ''AES-128''" and "fetch_key e k key w = (rk, w1)"
  shows "(\<exists>kb. rk = Inr kb) \<longrightarrow> w1 = w @ key_reads e (key_truthy key) s"
    and "w1 = w \<or> w1 = w @ key_reads e (key_truthy key) s"
proof -
  show "(\<exists>kb. rk = Inr kb) \<longrightarrow> w1 = w @ key_reads e (key_truthy key) s"
  proof (cases "key_truthy key")
    case True
    with assms show ?thesis by (simp add: fetch_key_cached key_reads_def)
  next
    case False
    show ?thesis
    proof (cases "uri k")
      case None
      with assms False show ?thesis by (auto simp add: fetch_key_first)
    next
      case (Some key_uri)
      with assms False have "rk = content_at e key_uri" and "w1 = w @ read_events e key_uri"
        by (simp_all add: fetch_key_first)
      with assms(1,2) False Some show ?thesis
        by (auto simp add: key_reads_def dest: read_events_done)
    qed
  qed
  show "w1 = w \<or> w1 = w @ key_reads e (key_truthy key) s"
  proof (cases "key_truthy key")
    case True
    with assms show ?thesis by (simp add: fetch_key_cached)
  next
    case False
    show ?thesis
    proof (cases "uri k")
      case None
      with assms False show ?thesis by (simp add: fetch_key_first)
    next
      case (Some key_uri)
      with assms False have "w1 = w @ read_events e key_uri"
        by (simp add: fetch_key_first)
      with assms(1,2) False Some read_events_cases [of e key_uri] show ?thesis
        by (auto simp add: key_reads_def)
    qed
  qed
qed

lemma choose_decrypt_plain:
  assumes "\<not> is_aes s" and "choose_decrypt e ms i s key w = (Inr (dec, key1), w1)"
  shows "dec = Inr \<and> key1 = key \<and> w1 = w"
  using assms
  by (auto simp add: choose_decrypt_def is_aes_def split: option.splits if_splits)

lemma choose_decrypt_aes:
  assumes "is_aes s" and "choose_decrypt e ms i s key w = (Inr (dec, key1), w1)"
  shows "key_truthy key1 \<and> w1 = w @ key_reads e (key_truthy key) s
    \<and> (\<forall>d err. dec d = Inl err \<longrightarrow> (\<exists>msg. err = ValueError msg))"
proof -
  from assms(1) obtain k where k: "seg_key s = Some k" "key_method k = ''AES-128''"
    by (auto simp add: is_aes_def split: option.splits)
  obtain rk wk where fk: "fetch_key e k key w = (rk, wk)" by (cases "fetch_key e k key w")
  from assms(2) k fk obtain kb iv where
    parts: "rk = Inr kb" "segment_iv ms i = Inr iv" "aes_new_cbc e kb iv = Inr dec"
      "key1 = Some kb" "w1 = wk"
    by (auto simp add: choose_decrypt_def split: sum.splits)
  from fetch_key_reads(1) [OF k fk] parts(1) have "wk = w @ key_reads e (key_truthy key) s"
    by simp
  with parts aes_new_cbc_key [OF parts(3)] aes_decrypt_error [OF parts(3)] show ?thesis
    by auto
qed

lemma choose_decrypt_failed:
  assumes "choose_decrypt e ms i s key w = (Inl err, w1)"
  shows "w1 = w \<or> w1 = w @ key_reads e (key_truthy key) s"
proof (cases "seg_key s")
  case None
  with assms show ?thesis by (simp add: choose_decrypt_def)
next
  case (Some k)
  show ?thesis
  proof (cases "key_method k = ''AES-128''")
    case False
    with Some assms show ?thesis by (simp add: choose_decrypt_def)
  next
    case True
    obtain rk wk where fk: "fetch_key e k key w = (rk, wk)" by (cases "fetch_key e k key w")
    from assms Some True fk have "w1 = wk"
      by (auto simp add: choose_decrypt_def split: sum.splits)
    with fetch_key_reads(2) [OF Some True fk] show ?thesis by simp
  qed
qed

lemma segment_body_reads:
  assumes "segment_body e h ms i s (ts, key) w = (rb, w2)"
  shows "(\<forall>ts1 key1. rb = Inr (ts1, key1) \<longrightarrow>
            w2 = w @ key_reads e (key_truthy key) s @ [read_event e (segment_url h s)]
            \<and> key_truthy key1 = (key_truthy key \<or> is_aes s))
    \<and> (\<forall>err. rb = Inl err \<longrightarrow>
            prefix (drop (length w) w2) (key_reads e (key_truthy key) s @ [read_event e (segment_url h s)])
            \<and> take (length w) w2 = w)"
proof (cases "choose_decrypt e ms i s key w")
  case (Pair rc w1)
  show ?thesis
  proof (cases rc)
    case (Inl err)
    with Pair assms have out: "rb = Inl err" "w2 = w1"
      by (simp_all add: segment_body_def)
    from choose_decrypt_failed [of e ms i s key w err w1] Pair Inl
    have "w1 = w \<or> w1 = w @ key_reads e (key_truthy key) s" by simp
    with out show ?thesis by auto
  next
    case (Inr p)
    obtain dec key1 where p: "p = (dec, key1)" by (cases p)
    have cd: "choose_decrypt e ms i s key w = (Inr (dec, key1), w1)"
      using Pair Inr p by simp
    have w1: "w1 = w @ key_reads e (key_truthy key) s" and k1: "key_truthy key1 = (key_truthy key \<or> is_aes s)"
    proof -
      show "w1 = w @ key_reads e (key_truthy key) s"
      proof (cases "is_aes s")
        case True
        with choose_decrypt_aes [OF True cd] show ?thesis by simp
      next
        case False
        with choose_decrypt_plain [OF False cd] show ?thesis
          by (auto simp add: key_reads_def is_aes_def split: option.splits)
      qed
      show "key_truthy key1 = (key_truthy key \<or> is_aes s)"
      proof (cases "is_aes s")
        case True
        with choose_decrypt_aes [OF True cd] show ?thesis by simp
      next
        case False
        with choose_decrypt_plain [OF False cd] show ?thesis by simp
      qed
    qed
    from assms cd have body: "(rb, w2) =
      (case content_at e (segment_url h s) of
         Inl err \<Rightarrow> (Inl err, w1 @ read_events e (segment_url h s))
       | Inr d \<Rightarrow> (case dec d of
            Inl err \<Rightarrow> (Inl err, w1 @ read_events e (segment_url h s))
          | Inr plain \<Rightarrow> (Inr (ts @ plain, key1), w1 @ read_events e (segment_url h s))))"
      by (auto simp add: segment_body_def read_bytes_silent segment_url_def Let_def
          split: sum.splits)
    then have w2: "w2 = w1 @ read_events e (segment_url h s)"
      by (auto split: sum.splits)
    from body have ok: "\<forall>ts1 key2. rb = Inr (ts1, key2) \<longrightarrow>
        key2 = key1 \<and> read_events e (segment_url h s) = [read_event e (segment_url h s)]"
      by (auto split: sum.splits dest: read_events_done)
    from w2 read_events_cases [of e "segment_url h s"]
    have "w2 = w1 \<or> w2 = w1 @ [read_event e (segment_url h s)]" by auto
    with w1 w2 k1 ok show ?thesis by auto
  qed
qed

lemma segments_loop_reads:
  assumes "segments_loop e h ms xs (ts, key) w = (r, w')"
  shows "take (length w) w' = w
    \<and> prefix (drop (length w) w') (expected_reads e h (key_truthy key) (map snd xs))
    \<and> ((\<exists>out. r = Inr out) \<longrightarrow> w' = w @ expected_reads e h (key_truthy key) (map snd xs))"
  using assms
proof (induction xs arbitrary: ts key w)
  case Nil
  then show ?case by auto
next
  case (Cons x xs)
  obtain i s where x: "x = (i, s)" by (cases x)
  obtain rb w2 where body: "segment_body e h ms i s (ts, key) w = (rb, w2)"
    by (cases "segment_body e h ms i s (ts, key) w")
  note reads = segment_body_reads [OF body]
  let ?here = "key_reads e (key_truthy key) s @ [read_event e (segment_url h s)]"
  show ?case
  proof (cases rb)
    case (Inl err)
    with Cons.prems x body have "r = Inl err" "w' = w2" by simp_all
    moreover from reads Inl have "prefix (drop (length w) w2) ?here" "take (length w) w2 = w"
      by simp_all
    ultimately show ?thesis
      using x by (auto intro: prefix_order.trans)
  next
    case (Inr st1)
    obtain ts1 key1 where st1: "st1 = (ts1, key1)" by (cases st1)
    from reads Inr st1 have w2: "w2 = w @ ?here"
      and k1: "key_truthy key1 = (key_truthy key \<or> is_aes s)" by simp_all
    from Cons.prems x body Inr st1 have rest: "segments_loop e h ms xs (ts1, key1) w2 = (r, w')"
      by simp
    from Cons.IH [OF rest] have
      t: "take (length w2) w' = w2"
      and p: "prefix (drop (length w2) w') (expected_reads e h (key_truthy key1) (map snd xs))"
      and f: "(\<exists>out. r = Inr out) \<longrightarrow> w' = w2 @ expected_reads e h (key_truthy key1) (map snd xs)"
      by simp_all
    from t have w'eq: "w' = w2 @ drop (length w2) w'"
      by (metis append_take_drop_id)
    then have w'eq2: "w' = w @ ?here @ drop (length w2) w'"
      using w2 by simp
    have "take (length w) w' = w"
      by (subst w'eq2) simp
    moreover have "drop (length w) w' = ?here @ drop (length w2) w'"
      by (subst w'eq2) simp
    with p k1 have "prefix (drop (length w) w') (expected_reads e h (key_truthy key) (map snd (x # xs)))"
      using x by simp
    moreover from f k1 w2 have
      "(\<exists>out. r = Inr out) \<longrightarrow> w' = w @ expected_reads e h (key_truthy key) (map snd (x # xs))"
      using x by simp
    ultimately show ?thesis by simp
  qed
qed

lemma length_expected_reads:
  "length (expected_reads e h have_key segs) \<le> length segs + (if have_key then 0 else 1)"
proof (induction segs arbitrary: have_key)
  case Nil
  then show ?case by simp
next
  case (Cons s segs)
  have "length (key_reads e have_key s) \<le> (if is_aes s \<and> \<not> have_key then 1 else 0)"
    by (auto simp add: key_reads_def is_aes_def split: option.splits)
  with Cons [of "have_key \<or> is_aes s"] show ?case
    by (auto split: if_splits)
qed

lemma map_Inr_Cons:
  "(\<exists>ds. Inr d # ys = map Inr ds \<and> out = ts @ concat ds)
    \<longleftrightarrow> (\<exists>ds'. ys = map Inr ds' \<and> out = (ts @ d) @ concat ds')"
proof
  assume "\<exists>ds. Inr d # ys = map Inr ds \<and> out = ts @ concat ds"
  then obtain ds where ab: "Inr d # ys = map Inr ds \<and> out = ts @ concat ds" ..
  from ab have a: "Inr d # ys = map Inr ds" by (rule conjunct1)
  from ab have b: "out = ts @ concat ds" by (rule conjunct2)
  from a obtain ds' where "ds = d # ds'" and "ys = map Inr ds'" by (cases ds) auto
  with b have "ys = map Inr ds' \<and> out = (ts @ d) @ concat ds'" by simp
  then show "\<exists>ds'. ys = map Inr ds' \<and> out = (ts @ d) @ concat ds'" ..
next
  assume "\<exists>ds'. ys = map Inr ds' \<and> out = (ts @ d) @ concat ds'"
  then obtain ds' where cd: "ys = map Inr ds' \<and> out = (ts @ d) @ concat ds'" ..
  then have "Inr d # ys = map Inr (d # ds') \<and> out = ts @ concat (d # ds')" by simp
  then show "\<exists>ds. Inr d # ys = map Inr ds \<and> out = ts @ concat ds" ..
qed

lemma map_Inr_Inl: "Inl err # ys \<noteq> map Inr ds"
  by (cases ds) simp_all

lemma segments_loop_plain:
  assumes "\<forall>s\<in>set (map snd xs). \<not> is_aes s"
  shows "fst (segments_loop e h ms xs (ts, key) w) = Inr out \<longleftrightarrow>
    (\<forall>s\<in>set (map snd xs). seg_key s \<noteq> None)
    \<and> (\<exists>ds. map (\<lambda>s. content_at e (segment_url h s)) (map snd xs) = map Inr ds
          \<and> out = ts @ concat ds)"
  using assms
proof (induction xs arbitrary: ts w)
  case Nil
  show ?case by auto
next
  case (Cons x xs)
  obtain i s where x: "x = (i, s)" by (cases x)
  from Cons.prems x have plain: "\<not> is_aes s" and rest: "\<forall>s\<in>set (map snd xs). \<not> is_aes s"
    by simp_all
  let ?f = "\<lambda>s. content_at e (segment_url h s)"
  show ?case
  proof (cases "seg_key s")
    case None
    from segment_body_no_key [OF None, of e h ms i ts key w] obtain err
      where "segment_body e h ms i s (ts, key) w = (Inl err, w)" ..
    then have "fst (segments_loop e h ms (x # xs) (ts, key) w) = Inl err"
      by (simp add: x)
    with None x show ?thesis by simp
  next
    case (Some k)
    with plain have m: "key_method k \<noteq> ''AES-128''" by (simp add: is_aes_def)
    note body = segment_body_plain [OF Some m, of e h ms i ts key w]
    show ?thesis
    proof (cases "content_at e (segment_url h s)")
      case (Inl err)
      with body have "fst (segments_loop e h ms (x # xs) (ts, key) w) = Inl err"
        by (simp add: x)
      moreover have "map ?f (map snd (x # xs)) \<noteq> map Inr ds" for ds
        using map_Inr_Inl [of err _ ds] Inl by (simp add: x)
      ultimately show ?thesis by simp
    next
      case (Inr d)
      let ?w2 = "w @ [read_event e (segment_url h s)]"
      from body Inr have step: "segments_loop e h ms (x # xs) (ts, key) w
          = segments_loop e h ms xs (ts @ d, key) ?w2"
        by (simp add: x)
      have "fst (segments_loop e h ms (x # xs) (ts, key) w) = Inr out
          \<longleftrightarrow> fst (segments_loop e h ms xs (ts @ d, key) ?w2) = Inr out"
        by (simp only: step)
      also have "\<dots> \<longleftrightarrow> (\<forall>s\<in>set (map snd xs). seg_key s \<noteq> None)
          \<and> (\<exists>ds'. map ?f (map snd xs) = map Inr ds' \<and> out = (ts @ d) @ concat ds')"
        by (rule Cons.IH [OF rest])
      also have "\<dots> \<longleftrightarrow> (\<forall>s\<in>set (map snd (x # xs)). seg_key s \<noteq> None)
          \<and> (\<exists>ds. map ?f (map snd (x # xs)) = map Inr ds \<and> out = ts @ concat ds)"
        using map_Inr_Cons [of d "map ?f (map snd xs)" out ts, symmetric] Some Inr
        by (simp add: x)
      finally show ?thesis .
    qed
  qed
qed


lemma host_scan_error: "host_scan ks is = Inl err \<Longrightarrow> err = IndexError ''list index out of range''"
  by (induction ks "is" rule: host_scan.induct) (auto split: if_splits option.splits)

lemma resolve_host_error:
  "resolve_host obj host_uri = Inl err \<Longrightarrow> err = IndexError ''list index out of range''"
  by (auto simp add: resolve_host_def get_host_uri_def split: option.splits if_splits
      dest: host_scan_error)

lemma segment_body_not_host_error:
  assumes "\<forall>loc. content_at e loc \<noteq> Inl host_error"
  shows "fst (segment_body e h ms i s (ts, key) w) \<noteq> Inl host_error"
proof (cases "choose_decrypt e ms i s key w")
  case (Pair rc w1)
  show ?thesis
  proof (cases rc)
    case (Inl err)
    with Pair choose_decrypt_not_host_error [OF assms, of ms i s key w] show ?thesis
      by (simp add: segment_body_def)
  next
    case (Inr p)
    obtain dec key1 where p: "p = (dec, key1)" by (cases p)
    have cd: "choose_decrypt e ms i s key w = (Inr (dec, key1), w1)"
      using Pair Inr p by simp
    have dec: "dec d \<noteq> Inl host_error" for d
    proof (cases "is_aes s")
      case True
      with choose_decrypt_aes [OF True cd] show ?thesis
        by (auto simp add: host_error_def)
    next
      case False
      with choose_decrypt_plain [OF False cd] show ?thesis by simp
    qed
    show ?thesis
    proof (cases "content_at e (segment_url h s)")
      case (Inl err)
      with assms have "err \<noteq> host_error" by metis
      with Inl cd show ?thesis
        by (simp add: segment_body_def read_bytes_silent segment_url_def)
    next
      case d: (Inr d)
      with cd dec [of d] show ?thesis
        by (cases "dec d") (simp_all add: segment_body_def read_bytes_silent segment_url_def)
    qed
  qed
qed

lemma segments_loop_not_host_error:
  assumes "\<forall>loc. content_at e loc \<noteq> Inl host_error"
  shows "fst (segments_loop e h ms xs (ts, key) w) \<noteq> Inl host_error"
proof (induction xs arbitrary: ts key w)
  case Nil
  then show ?case by simp
next
  case (Cons x xs)
  obtain i s where x: "x = (i, s)" by (cases x)
  obtain rb w2 where body: "segment_body e h ms i s (ts, key) w = (rb, w2)"
    by (cases "segment_body e h ms i s (ts, key) w")
  show ?case
  proof (cases rb)
    case (Inl err)
    with body x segment_body_not_host_error [OF assms, of h ms i s ts key w] show ?thesis
      by simp
  next
    case (Inr st1)
    obtain ts1 key1 where "st1 = (ts1, key1)" by (cases st1)
    with Inr body x Cons [of ts1 key1 w2] show ?thesis by simp
  qed
qed

lemma key_reads_cached: "key_reads e True s = []"
  by (simp add: key_reads_def split: option.splits)

lemma key_reads_plain: "\<not> is_aes s \<Longrightarrow> key_reads e have_key s = []"
  by (cases "seg_key s") (simp_all add: key_reads_def is_aes_def)

lemma expected_reads_cached:
  "expected_reads e h True segs = map (\<lambda>s. read_event e (segment_url h s)) segs"
  by (induction segs) (simp_all add: key_reads_cached)

lemma expected_reads_plain:
  "\<forall>x\<in>set segs. \<not> is_aes x \<Longrightarrow>
     expected_reads e h False segs = map (\<lambda>s. read_event e (segment_url h s)) segs"
  by (induction segs) (simp_all add: key_reads_plain)

lemma expected_reads_first_aes:
  assumes "\<forall>x\<in>set pre. \<not> is_aes x"
    and "seg_key s = Some k" and "key_method k = ''AES-128''" and "uri k = Some key_uri"
  shows "expected_reads e h False (pre @ s # post)
    = map (\<lambda>s. read_event e (segment_url h s)) pre
      @ read_event e key_uri # map (\<lambda>s. read_event e (segment_url h s)) (s # post)"
  using assms(1)
proof (induction pre)
  case Nil
  from assms(2-4) have "key_reads e False s = [read_event e key_uri]" and "is_aes s"
    by (simp_all add: key_reads_def is_aes_def)
  then show ?case by (simp add: expected_reads_cached)
next
  case (Cons x pre)
  then show ?case by (simp add: key_reads_plain)
qed

lemmas run_simps =
  get_ts_from_m3u8_def resolve_host_def get_host_uri_def segment_body_def choose_decrypt_def
  fetch_key_def read_bytes_def is_valid_def sample_env_def sample_env_with_def sample_urlparse_def Let_def lookup_bytes_def
  os_path_join_def segment_iv_in_range aes_new_cbc_def length_big_endian convert_def
  save_converted_mp3_def

subsection \<open>The conversion against its specification\<close>

lemma a2b_hex_minus: "\<exists>err. a2b_hex (CHR ''-'' # cs) = Inl err"
proof (cases "odd (length (CHR ''-'' # cs))")
  case True
  then show ?thesis by (simp add: a2b_hex_def)
next
  case False
  then obtain c rest where "cs = c # rest" by (cases cs) auto
  then show ?thesis by (simp add: a2b_hex_def hex_val_def)
qed

lemma segment_iv_negative: "int i + ms < 0 \<Longrightarrow> \<exists>err. segment_iv ms i = Inl err"
  using a2b_hex_minus by (simp add: segment_iv_def format_032x_def Let_def)

lemma segment_iv_overlong:
  assumes "2 ^ 128 \<le> int i + ms" and "segment_iv ms i = Inr iv"
  shows "16 < length iv"
proof -
  note fmt = format_032x_long [OF assms(1)]
  from assms(2) have ev: "even (length (to_hex (nat (int i + ms))))"
    by (auto simp add: segment_iv_def Let_def fmt(1) a2b_hex_def split: if_splits)
  then obtain k where k: "length (to_hex (nat (int i + ms))) = 2 * k"
    by (auto elim: evenE)
  from assms(2) ev a2b_pairs_to_hex_even(1) [OF k] have "iv = big_endian k (nat (int i + ms))"
    by (simp add: segment_iv_def Let_def fmt(1) a2b_hex_def)
  with k fmt(2) show ?thesis by (simp add: length_big_endian)
qed

lemma segment_iv_16:
  "segment_iv ms i = Inr iv \<and> length iv = 16
    \<longleftrightarrow> 0 \<le> int i + ms \<and> int i + ms < 2 ^ 128 \<and> iv = big_endian 16 (nat (int i + ms))"
proof
  assume a: "segment_iv ms i = Inr iv \<and> length iv = 16"
  have lo: "0 \<le> int i + ms"
  proof (rule ccontr)
    assume "\<not> 0 \<le> int i + ms"
    then have "int i + ms < 0" by simp
    from segment_iv_negative [OF this] a show False by auto
  qed
  have hi: "int i + ms < 2 ^ 128"
  proof (rule ccontr)
    assume "\<not> int i + ms < 2 ^ 128"
    then have "2 ^ 128 \<le> int i + ms" by simp
    from segment_iv_overlong [OF this, of iv] a show False by simp
  qed
  from segment_iv_in_range [OF lo hi] a lo hi
  show "0 \<le> int i + ms \<and> int i + ms < 2 ^ 128 \<and> iv = big_endian 16 (nat (int i + ms))"
    by simp
next
  assume "0 \<le> int i + ms \<and> int i + ms < 2 ^ 128 \<and> iv = big_endian 16 (nat (int i + ms))"
  then show "segment_iv ms i = Inr iv \<and> length iv = 16"
    by (simp add: segment_iv_in_range length_big_endian)
qed

lemma fetch_key_key_for:
  assumes "seg_key s = Some k"
  shows "(\<exists>w1. fetch_key e k key w = (Inr kb, w1)) \<longleftrightarrow> key_for e key s = Some kb"
proof (cases "key_truthy key")
  case True
  then obtain kb0 where "key = Some kb0" by (cases key) auto
  with True show ?thesis by (auto simp add: fetch_key_cached key_for_def)
next
  case False
  with assms show ?thesis
    by (auto simp add: fetch_key_first key_for_def split: option.splits sum.splits)
qed

lemma segment_body_spec:
  assumes "seg_key s \<noteq> None"
  shows "fst (segment_body e h ms i s (ts, key) w) = Inr st1
    \<longleftrightarrow> (\<exists>plain key1. segment_spec e h ms i key s = Some (plain, key1) \<and> st1 = (ts @ plain, key1))"
proof -
  from assms obtain k where k: "seg_key s = Some k" by auto
  show ?thesis
  proof (cases "key_method k = ''AES-128''")
    case False
    with k have plain: "\<not> is_aes s" by (simp add: is_aes_def)
    from segment_body_plain [OF k False, of e h ms i ts key w] plain show ?thesis
      by (cases "content_at e (segment_url h s)") (auto simp add: segment_spec_def)
  next
    case True
    with k have aes: "is_aes s" by (simp add: is_aes_def)
    obtain rk w1 where fk: "fetch_key e k key w = (rk, w1)" by (cases "fetch_key e k key w")
    show ?thesis
    proof (cases rk)
      case (Inl err)
      with fk have "\<not> (\<exists>kb w1. fetch_key e k key w = (Inr kb, w1))" by simp
      with fetch_key_key_for [OF k, of e key w] have "key_for e key s = None"
        by (cases "key_for e key s") auto
      moreover from Inl fk k True have "fst (segment_body e h ms i s (ts, key) w) = Inl err"
        by (simp add: segment_body_def choose_decrypt_def)
      ultimately show ?thesis
        using aes by (auto simp add: segment_spec_def split: sum.splits)
    next
      case (Inr kb)
      with fk fetch_key_key_for [OF k, of e key w kb] have kf: "key_for e key s = Some kb"
        by auto
      let ?ok = "length kb \<in> {16, 24, 32} \<and> 0 \<le> int i + ms \<and> int i + ms < 2 ^ 128"
      let ?iv = "big_endian 16 (nat (int i + ms))"
      show ?thesis
      proof (cases ?ok)
        case ok: True
        then have iv: "segment_iv ms i = Inr ?iv" by (simp add: segment_iv_in_range)
        from ok have new: "aes_new_cbc e kb ?iv = Inr (\<lambda>data.
            if length data mod 16 \<noteq> 0
            then Inl (ValueError ''Data must be padded to 16 byte boundary in CBC mode'')
            else Inr (cbc_decrypt e kb ?iv data))"
          by (auto simp add: aes_new_cbc_def length_big_endian)
        from k True fk Inr iv new have body: "fst (segment_body e h ms i s (ts, key) w) =
          (case content_at e (segment_url h s) of
             Inl err \<Rightarrow> Inl err
           | Inr d \<Rightarrow> if length d mod 16 \<noteq> 0
               then Inl (ValueError ''Data must be padded to 16 byte boundary in CBC mode'')
               else Inr (ts @ cbc_decrypt e kb ?iv d, Some kb))"
          by (simp add: segment_body_def choose_decrypt_def read_bytes_silent segment_url_def
              split: sum.splits)
        from ok aes kf have spec: "segment_spec e h ms i key s =
          (case content_at e (segment_url h s) of
             Inl err \<Rightarrow> None
           | Inr d \<Rightarrow> if length d mod 16 = 0 then Some (cbc_decrypt e kb ?iv d, Some kb) else None)"
          by (simp add: segment_spec_def split: sum.splits)
        show ?thesis
          unfolding body spec
          by (cases "content_at e (segment_url h s)") auto
      next
        case bad: False
        have "\<exists>err. choose_decrypt e ms i s key w = (Inl err, w1)"
        proof (cases "segment_iv ms i")
          case (Inl err)
          with k True fk Inr show ?thesis by (simp add: choose_decrypt_def)
        next
          case iv: (Inr iv)
          have "\<exists>err. aes_new_cbc e kb iv = Inl err"
          proof (cases "length kb \<in> {16, 24, 32}")
            case False
            then show ?thesis by (simp add: aes_new_cbc_def)
          next
            case True
            with bad have "\<not> (0 \<le> int i + ms \<and> int i + ms < 2 ^ 128)" by blast
            with segment_iv_16 [of ms i iv] iv have "length iv \<noteq> 16" by blast
            with True show ?thesis by (simp add: aes_new_cbc_def)
          qed
          with k \<open>key_method k = ''AES-128''\<close> fk Inr iv show ?thesis
            by (auto simp add: choose_decrypt_def)
        qed
        then have "\<exists>err. fst (segment_body e h ms i s (ts, key) w) = Inl err"
          by (auto simp add: segment_body_def)
        moreover from bad aes kf have "segment_spec e h ms i key s = None"
          by (auto simp add: segment_spec_def split: sum.splits)
        ultimately show ?thesis by auto
      qed
    qed
  qed
qed

lemma segments_loop_spec:
  assumes "\<forall>s\<in>set segs. seg_key s \<noteq> None"
  shows "fst (segments_loop e h ms (enumerate i segs) (ts, key) w) = Inr out
    \<longleftrightarrow> (\<exists>rest. pipeline_spec e h ms i key segs = Some rest \<and> out = ts @ rest)"
  using assms
proof (induction segs arbitrary: i ts key w)
  case Nil
  show ?case by auto
next
  case (Cons s segs)
  from Cons.prems have here: "seg_key s \<noteq> None" and rest: "\<forall>s\<in>set segs. seg_key s \<noteq> None"
    by simp_all
  note body_spec = segment_body_spec [OF here, of e h ms i ts key w]
  obtain rb w2 where body: "segment_body e h ms i s (ts, key) w = (rb, w2)"
    by (cases "segment_body e h ms i s (ts, key) w")
  show ?case
  proof (cases rb)
    case (Inl err)
    with body have "fst (segments_loop e h ms (enumerate i (s # segs)) (ts, key) w) = Inl err"
      by simp
    moreover have "segment_spec e h ms i key s = None"
    proof (cases "segment_spec e h ms i key s")
      case None
      then show ?thesis .
    next
      case (Some p)
      obtain plain key1 where "p = (plain, key1)" by (cases p)
      with Some body_spec [of "(ts @ plain, key1)"] body Inl show ?thesis by simp
    qed
    ultimately show ?thesis by simp
  next
    case (Inr st1)
    obtain ts1 key1 where st1: "st1 = (ts1, key1)" by (cases st1)
    from body Inr st1 body_spec [of "(ts1, key1)"] obtain plain
      where spec: "segment_spec e h ms i key s = Some (plain, key1)" and ts1: "ts1 = ts @ plain"
      by auto
    from body Inr st1 have step: "segments_loop e h ms (enumerate i (s # segs)) (ts, key) w
        = segments_loop e h ms (enumerate (Suc i) segs) (ts1, key1) w2"
      by simp
    have "fst (segments_loop e h ms (enumerate i (s # segs)) (ts, key) w) = Inr out
        \<longleftrightarrow> (\<exists>rest. pipeline_spec e h ms (Suc i) key1 segs = Some rest \<and> out = ts1 @ rest)"
      unfolding step by (rule Cons.IH [OF rest])
    also have "\<dots> \<longleftrightarrow> (\<exists>rest. pipeline_spec e h ms i key (s # segs) = Some rest \<and> out = ts @ rest)"
      using spec ts1 by auto
    finally show ?thesis .
  qed
qed

lemma get_ts_from_m3u8_spec:
  assumes "resolve_host obj host_uri = Inr (Some h)" and "\<forall>s\<in>set (segments obj). seg_key s \<noteq> None"
  shows "fst (get_ts_from_m3u8 e obj host_uri w) = Inr out
    \<longleftrightarrow> pipeline_spec e h (media_sequence obj) 0 None (segments obj) = Some out"
  using segments_loop_spec [OF assms(2), of e h "media_sequence obj" 0 "[]" None w out] assms(1)
  by (simp add: get_ts_from_m3u8_def)

lemma big_endian_byte: "d < 256 \<Longrightarrow> big_endian (Suc k) d = replicate k 0 @ [of_nat d]"
  by (simp add: big_endian_0)









subsection \<open>The IV used for each segment\<close>

text \<open>
  C1: for every playlist whose segments carry key objects, with a host supplied or
  found, \<^verbatim>\<open>get_ts_from_m3u8\<close> returns bytes exactly when \<open>pipeline_spec\<close> does, and
  the same bytes: segment \<open>i\<close>, counted from 0, is decrypted with the IV that is
  \<open>i + media_sequence\<close> in 16 bytes, most significant first. The IV computed by the
  code (\<open>segment_iv\<close>) depends on \<open>i + media_sequence\<close> alone; for a number from 0
  to \<open>2 ^ 128 - 1\<close> it is that 16-byte string, 16 zero bytes for 0, and two different
  numbers of that range give different IVs.
\<close>

theorem iv_from_sequence_number:
  "(resolve_host obj host_uri = Inr (Some h) \<and> (\<forall>s\<in>set (segments obj). seg_key s \<noteq> None)
      \<longrightarrow> (fst (get_ts_from_m3u8 e obj host_uri w) = Inr out
            \<longleftrightarrow> pipeline_spec e h (media_sequence obj) 0 None (segments obj) = Some out))
   \<and> (0 \<le> int i + ms \<and> int i + ms < 2 ^ 128 \<longrightarrow>
        segment_iv ms i = Inr (big_endian 16 (nat (int i + ms)))
        \<and> length (big_endian 16 (nat (int i + ms))) = 16
        \<and> be_value (big_endian 16 (nat (int i + ms))) = nat (int i + ms))
   \<and> (int i + ms = 0 \<longrightarrow> segment_iv ms i = Inr (replicate 16 0))
   \<and> (int i' + ms' = int i + ms \<longrightarrow> segment_iv ms' i' = segment_iv ms i)
   \<and> (0 \<le> int i + ms \<and> int i + ms < 2 ^ 128
        \<and> 0 \<le> int i' + ms' \<and> int i' + ms' < 2 ^ 128 \<and> int i' + ms' \<noteq> int i + ms
        \<longrightarrow> segment_iv ms' i' \<noteq> segment_iv ms i)"
proof (intro conjI impI)
  show "fst (get_ts_from_m3u8 e obj host_uri w) = Inr out
      \<longleftrightarrow> pipeline_spec e h (media_sequence obj) 0 None (segments obj) = Some out"
    if "resolve_host obj host_uri = Inr (Some h) \<and> (\<forall>s\<in>set (segments obj). seg_key s \<noteq> None)"
    using that get_ts_from_m3u8_spec [of obj host_uri h e w out] by blast
  show "segment_iv ms i = Inr (big_endian 16 (nat (int i + ms)))"
    if "0 \<le> int i + ms \<and> int i + ms < 2 ^ 128"
    using that by (simp add: segment_iv_in_range)
  show "length (big_endian 16 (nat (int i + ms))) = 16"
    by (rule length_big_endian)
  show "be_value (big_endian 16 (nat (int i + ms))) = nat (int i + ms)"
    if "0 \<le> int i + ms \<and> int i + ms < 2 ^ 128"
    using that by (simp add: be_value_in_range)
  show "segment_iv ms i = Inr (replicate 16 0)" if "int i + ms = 0"
    using that segment_iv_in_range [of i ms] by (simp add: big_endian_0)
  show "segment_iv ms' i' = segment_iv ms i" if "int i' + ms' = int i + ms"
    using that by (simp add: segment_iv_def)
  show "segment_iv ms' i' \<noteq> segment_iv ms i"
    if both: "0 \<le> int i + ms \<and> int i + ms < 2 ^ 128
        \<and> 0 \<le> int i' + ms' \<and> int i' + ms' < 2 ^ 128 \<and> int i' + ms' \<noteq> int i + ms"
  proof
    assume same: "segment_iv ms' i' = segment_iv ms i"
    from both have "segment_iv ms i = Inr (big_endian 16 (nat (int i + ms)))"
      and "segment_iv ms' i' = Inr (big_endian 16 (nat (int i' + ms')))"
      by (simp_all add: segment_iv_in_range)
    with same have "big_endian 16 (nat (int i' + ms')) = big_endian 16 (nat (int i + ms))"
      by simp
    then have "be_value (big_endian 16 (nat (int i' + ms'))) = be_value (big_endian 16 (nat (int i + ms)))"
      by simp
    with both have "nat (int i' + ms') = nat (int i + ms)"
      by (simp add: be_value_in_range)
    with both show False by linarith
  qed
qed

text \<open>
  A run with a media sequence of 2 and a stand-in cipher that returns its IV: the bytes
  produced are the IVs of the numbers 2 and 3.
\<close>

theorem iv_from_sequence_number_witness:
  "fst (get_ts_from_m3u8
          (sample_env_with (\<lambda>key iv data. iv)
             [(''http://host/audio/key.bin'', replicate 16 1),
              (''http://host/audio/s0.ts'', replicate 16 7),
              (''http://host/audio/s1.ts'', replicate 16 8)] [])
          \<lparr>media_sequence = 2,
           keys = [Some \<lparr>key_method = ''AES-128'', uri = Some ''http://host/audio/key.bin''\<rparr>],
           segments = [\<lparr>seg_uri = ''s0.ts'',
                        seg_key = Some \<lparr>key_method = ''AES-128'', uri = Some ''http://host/audio/key.bin''\<rparr>\<rparr>,
                       \<lparr>seg_uri = ''s1.ts'',
                        seg_key = Some \<lparr>key_method = ''AES-128'', uri = Some ''http://host/audio/key.bin''\<rparr>\<rparr>]\<rparr>
          (Some ''http://host/audio'') [])
     = Inr ((replicate 15 0 @ [2]) @ (replicate 15 0 @ [3]))
   \<and> segment_iv 0 0 = Inr (replicate 16 0)
   \<and> segment_iv 0 1 \<noteq> segment_iv 0 0
   \<and> segment_iv 4 1 = segment_iv 2 3"
  (is "fst (get_ts_from_m3u8 ?E ?O ?H []) = Inr ?out \<and> _")
proof -
  have host: "resolve_host ?O ?H = Inr (Some ''http://host/audio'')"
    by (simp add: resolve_host_def)
  have keys: "\<forall>s\<in>set (segments ?O). seg_key s \<noteq> None" by simp
  have two: "big_endian 16 2 = replicate 15 0 @ [2]"
    using big_endian_byte [of 2 15] by simp
  have three: "big_endian 16 3 = replicate 15 0 @ [3]"
    using big_endian_byte [of 3 15] by simp
  have "pipeline_spec ?E ''http://host/audio'' (media_sequence ?O) 0 None (segments ?O)
      = Some (big_endian 16 2 @ big_endian 16 3)"
    by (simp add: segment_spec_def key_for_def content_at_def is_valid_def segment_url_def
        os_path_join_def is_aes_def sample_env_with_def sample_urlparse_def Let_def
        lookup_bytes_def)
  then have spec: "pipeline_spec ?E ''http://host/audio'' (media_sequence ?O) 0 None (segments ?O)
      = Some ?out"
    by (simp only: two three)
  from iv_from_sequence_number [of ?O ?H "''http://host/audio''" ?E "[]" ?out 0 0 0 0] host keys spec
  have run: "fst (get_ts_from_m3u8 ?E ?O ?H []) = Inr ?out" by blast
  note at_zero = iv_from_sequence_number [of ?O ?H "''http://host/audio''" ?E "[]" ?out 0 0 1 0]
  from at_zero [THEN conjunct2, THEN conjunct2, THEN conjunct1]
  have zero: "segment_iv 0 0 = Inr (replicate 16 0)" by simp
  from at_zero [THEN conjunct2, THEN conjunct2, THEN conjunct2, THEN conjunct2]
  have other: "segment_iv 0 1 \<noteq> segment_iv 0 0" by simp
  note at_five = iv_from_sequence_number [of ?O ?H "''http://host/audio''" ?E "[]" ?out 3 2 1 4]
  from at_five [THEN conjunct2, THEN conjunct2, THEN conjunct2, THEN conjunct1]
  have same: "segment_iv 4 1 = segment_iv 2 3" by simp
  from run zero other same show ?thesis by (intro conjI)
qed

subsection \<open>One key fetch\<close>

text \<open>
  C3: in every run the reads form a beginning of \<open>expected_reads\<close>, the whole of it
  when the run succeeds. So there is at most one read beyond the one read per segment:
  the key of the first AES-128 segment, read just before that segment; every later
  AES-128 segment uses the key held, whatever its own key URI. A run that stops for
  want of a host reads nothing.
\<close>

theorem key_fetched_at_most_once:
  assumes "get_ts_from_m3u8 e obj host_uri w = (r, w')"
  shows "((\<forall>h. resolve_host obj host_uri \<noteq> Inr (Some h)) \<longrightarrow> w' = w)
    \<and> (\<forall>h. resolve_host obj host_uri = Inr (Some h) \<longrightarrow>
          take (length w) w' = w
          \<and> prefix (drop (length w) w') (expected_reads e h False (segments obj))
          \<and> length (drop (length w) w') \<le> length (segments obj) + 1
          \<and> ((\<exists>out. r = Inr out) \<longrightarrow> w' = w @ expected_reads e h False (segments obj))
          \<and> ((\<forall>x\<in>set (segments obj). \<not> is_aes x) \<longrightarrow>
                expected_reads e h False (segments obj)
                  = map (\<lambda>s. read_event e (segment_url h s)) (segments obj))
          \<and> (\<forall>pre s post k key_uri.
                segments obj = pre @ s # post \<and> (\<forall>x\<in>set pre. \<not> is_aes x)
                \<and> seg_key s = Some k \<and> key_method k = ''AES-128'' \<and> uri k = Some key_uri
                \<longrightarrow> expected_reads e h False (segments obj)
                      = map (\<lambda>s. read_event e (segment_url h s)) pre
                        @ read_event e key_uri
                        # map (\<lambda>s. read_event e (segment_url h s)) (s # post)))"
proof (intro conjI allI impI)
  show "w' = w" if "\<forall>h. resolve_host obj host_uri \<noteq> Inr (Some h)"
    using that assms
    by (auto simp add: get_ts_from_m3u8_def split: sum.splits option.splits)
next
  fix h
  assume host: "resolve_host obj host_uri = Inr (Some h)"
  with assms have loop:
    "segments_loop e h (media_sequence obj) (enumerate 0 (segments obj)) ([], None) w = (r, w')"
    by (simp add: get_ts_from_m3u8_def)
  from segments_loop_reads [OF loop] have
    t: "take (length w) w' = w"
    and p: "prefix (drop (length w) w') (expected_reads e h False (segments obj))"
    and f: "(\<exists>out. r = Inr out) \<longrightarrow> w' = w @ expected_reads e h False (segments obj)"
    by (simp_all add: map_snd_enumerate)
  show "take (length w) w' = w" by (rule t)
  show "prefix (drop (length w) w') (expected_reads e h False (segments obj))" by (rule p)
  from prefix_length_le [OF p] length_expected_reads [of e h False "segments obj"]
  show "length (drop (length w) w') \<le> length (segments obj) + 1" by simp
  show "w' = w @ expected_reads e h False (segments obj)" if "\<exists>out. r = Inr out"
    using f that by simp
  show "expected_reads e h False (segments obj)
      = map (\<lambda>s. read_event e (segment_url h s)) (segments obj)"
    if "\<forall>x\<in>set (segments obj). \<not> is_aes x"
    using that by (rule expected_reads_plain)
  show "expected_reads e h False (segments obj)
      = map (\<lambda>s. read_event e (segment_url h s)) pre
        @ read_event e key_uri # map (\<lambda>s. read_event e (segment_url h s)) (s # post)"
    if "segments obj = pre @ s # post \<and> (\<forall>x\<in>set pre. \<not> is_aes x)
          \<and> seg_key s = Some k \<and> key_method k = ''AES-128'' \<and> uri k = Some key_uri"
    for pre s post k key_uri
    using that expected_reads_first_aes [of pre s k key_uri e h post] by simp
qed

text \<open>Ten AES-128 segments with the same key URI: eleven reads, the key first and once.\<close>

theorem key_fetched_at_most_once_witness:
  "get_ts_from_m3u8
          (sample_env [(''http://host/audio/key.bin'', replicate 16 1),
                       (''http://host/audio/s0.ts'', replicate 16 2),
                       (''http://host/audio/s1.ts'', replicate 16 3),
                       (''http://host/audio/s2.ts'', replicate 16 4),
                       (''http://host/audio/s3.ts'', replicate 16 5),
                       (''http://host/audio/s4.ts'', replicate 16 6),
                       (''http://host/audio/s5.ts'', replicate 16 7),
                       (''http://host/audio/s6.ts'', replicate 16 8),
                       (''http://host/audio/s7.ts'', replicate 16 9),
                       (''http://host/audio/s8.ts'', replicate 16 10),
                       (''http://host/audio/s9.ts'', replicate 16 11)] [])
          \<lparr>media_sequence = 0, keys = [Some \<lparr>key_method = ''AES-128'', uri = Some ''http://host/audio/key.bin''\<rparr>],
           segments = [\<lparr>seg_uri = ''s0.ts'', seg_key = Some \<lparr>key_method = ''AES-128'', uri = Some ''http://host/audio/key.bin''\<rparr>\<rparr>,
                       \<lparr>seg_uri = ''s1.ts'', seg_key = Some \<lparr>key_method = ''AES-128'', uri = Some ''http://host/audio/key.bin''\<rparr>\<rparr>,
                       \<lparr>seg_uri = ''s2.ts'', seg_key = Some \<lparr>key_method = ''AES-128'', uri = Some ''http://host/audio/key.bin''\<rparr>\<rparr>,
                       \<lparr>seg_uri = ''s3.ts'', seg_key = Some \<lparr>key_method = ''AES-128'', uri = Some ''http://host/audio/key.bin''\<rparr>\<rparr>,
                       \<lparr>seg_uri = ''s4.ts'', seg_key = Some \<lparr>key_method = ''AES-128'', uri = Some ''http://host/audio/key.bin''\<rparr>\<rparr>,
                       \<lparr>seg_uri = ''s5.ts'', seg_key = Some \<lparr>key_method = ''AES-128'', uri = Some ''http://host/audio/key.bin''\<rparr>\<rparr>,
                       \<lparr>seg_uri = ''s6.ts'', seg_key = Some \<lparr>key_method = ''AES-128'', uri = Some ''http://host/audio/key.bin''\<rparr>\<rparr>,
                       \<lparr>seg_uri = ''s7.ts'', seg_key = Some \<lparr>key_method = ''AES-128'', uri = Some ''http://host/audio/key.bin''\<rparr>\<rparr>,
                       \<lparr>seg_uri = ''s8.ts'', seg_key = Some \<lparr>key_method = ''AES-128'', uri = Some ''http://host/audio/key.bin''\<rparr>\<rparr>,
                       \<lparr>seg_uri = ''s9.ts'', seg_key = Some \<lparr>key_method = ''AES-128'', uri = Some ''http://host/audio/key.bin''\<rparr>\<rparr>]\<rparr>
          (Some ''http://host/audio'') []
     = (Inr (replicate 16 2 @ replicate 16 3 @ replicate 16 4 @ replicate 16 5 @ replicate 16 6 @ replicate 16 7 @ replicate 16 8 @ replicate 16 9 @ replicate 16 10 @ replicate 16 11),
     [Urlopen ''http://host/audio/key.bin'',
      Urlopen ''http://host/audio/s0.ts'',
      Urlopen ''http://host/audio/s1.ts'',
      Urlopen ''http://host/audio/s2.ts'',
      Urlopen ''http://host/audio/s3.ts'',
      Urlopen ''http://host/audio/s4.ts'',
      Urlopen ''http://host/audio/s5.ts'',
      Urlopen ''http://host/audio/s6.ts'',
      Urlopen ''http://host/audio/s7.ts'',
      Urlopen ''http://host/audio/s8.ts'',
      Urlopen ''http://host/audio/s9.ts''])
   \<and> expected_reads
          (sample_env [(''http://host/audio/key.bin'', replicate 16 1),
                       (''http://host/audio/s0.ts'', replicate 16 2),
                       (''http://host/audio/s1.ts'', replicate 16 3),
                       (''http://host/audio/s2.ts'', replicate 16 4),
                       (''http://host/audio/s3.ts'', replicate 16 5),
                       (''http://host/audio/s4.ts'', replicate 16 6),
                       (''http://host/audio/s5.ts'', replicate 16 7),
                       (''http://host/audio/s6.ts'', replicate 16 8),
                       (''http://host/audio/s7.ts'', replicate 16 9),
                       (''http://host/audio/s8.ts'', replicate 16 10),
                       (''http://host/audio/s9.ts'', replicate 16 11)] [])
          ''http://host/audio'' False
          (segments \<lparr>media_sequence = 0, keys = [Some \<lparr>key_method = ''AES-128'', uri = Some ''http://host/audio/key.bin''\<rparr>],
           segments = [\<lparr>seg_uri = ''s0.ts'', seg_key = Some \<lparr>key_method = ''AES-128'', uri = Some ''http://host/audio/key.bin''\<rparr>\<rparr>,
                       \<lparr>seg_uri = ''s1.ts'', seg_key = Some \<lparr>key_method = ''AES-128'', uri = Some ''http://host/audio/key.bin''\<rparr>\<rparr>,
                       \<lparr>seg_uri = ''s2.ts'', seg_key = Some \<lparr>key_method = ''AES-128'', uri = Some ''http://host/audio/key.bin''\<rparr>\<rparr>,
                       \<lparr>seg_uri = ''s3.ts'', seg_key = Some \<lparr>key_method = ''AES-128'', uri = Some ''http://host/audio/key.bin''\<rparr>\<rparr>,
                       \<lparr>seg_uri = ''s4.ts'', seg_key = Some \<lparr>key_method = ''AES-128'', uri = Some ''http://host/audio/key.bin''\<rparr>\<rparr>,
                       \<lparr>seg_uri = ''s5.ts'', seg_key = Some \<lparr>key_method = ''AES-128'', uri = Some ''http://host/audio/key.bin''\<rparr>\<rparr>,
                       \<lparr>seg_uri = ''s6.ts'', seg_key = Some \<lparr>key_method = ''AES-128'', uri = Some ''http://host/audio/key.bin''\<rparr>\<rparr>,
                       \<lparr>seg_uri = ''s7.ts'', seg_key = Some \<lparr>key_method = ''AES-128'', uri = Some ''http://host/audio/key.bin''\<rparr>\<rparr>,
                       \<lparr>seg_uri = ''s8.ts'', seg_key = Some \<lparr>key_method = ''AES-128'', uri = Some ''http://host/audio/key.bin''\<rparr>\<rparr>,
                       \<lparr>seg_uri = ''s9.ts'', seg_key = Some \<lparr>key_method = ''AES-128'', uri = Some ''http://host/audio/key.bin''\<rparr>\<rparr>]\<rparr>)
     = [Urlopen ''http://host/audio/key.bin'',
      Urlopen ''http://host/audio/s0.ts'',
      Urlopen ''http://host/audio/s1.ts'',
      Urlopen ''http://host/audio/s2.ts'',
      Urlopen ''http://host/audio/s3.ts'',
      Urlopen ''http://host/audio/s4.ts'',
      Urlopen ''http://host/audio/s5.ts'',
      Urlopen ''http://host/audio/s6.ts'',
      Urlopen ''http://host/audio/s7.ts'',
      Urlopen ''http://host/audio/s8.ts'',
      Urlopen ''http://host/audio/s9.ts'']"
  (is "get_ts_from_m3u8 ?E ?O ?H [] = (Inr ?out, ?T) \<and> _")
proof -
  have run: "get_ts_from_m3u8 ?E ?O ?H [] = (Inr ?out, ?T)"
    by (simp add: run_simps)
  have host: "resolve_host ?O ?H = Inr (Some ''http://host/audio'')"
    by (simp add: resolve_host_def)
  from key_fetched_at_most_once [OF run] host
  have "(\<exists>out. (Inr ?out :: error + bytes) = Inr out)
      \<longrightarrow> ?T = [] @ expected_reads ?E ''http://host/audio'' False (segments ?O)"
    by blast
  then have reads: "expected_reads ?E ''http://host/audio'' False (segments ?O) = ?T"
    by simp
  from run reads show ?thesis by (rule conjI)
qed

subsection \<open>Playlists without AES-128 segments\<close>

text \<open>
  When no segment has method AES-128 and a host is supplied or found,
  \<^verbatim>\<open>get_ts_from_m3u8\<close> returns bytes exactly when every segment has a key object and
  every segment can be read, and the bytes returned are the contents read, concatenated
  in playlist order with nothing added, changed, reordered or dropped.
\<close>

theorem unencrypted_output_is_concatenation:
  assumes "resolve_host obj host_uri = Inr (Some h)"
    and "\<forall>s\<in>set (segments obj). \<not> is_aes s"
  shows "fst (get_ts_from_m3u8 e obj host_uri w) = Inr out \<longleftrightarrow>
    (\<forall>s\<in>set (segments obj). seg_key s \<noteq> None)
    \<and> (\<exists>ds. map (\<lambda>s. content_at e (segment_url h s)) (segments obj) = map Inr ds
          \<and> out = concat ds)"
proof -
  have plain: "\<forall>s\<in>set (map snd (enumerate 0 (segments obj))). \<not> is_aes s"
    using assms(2) by (simp add: map_snd_enumerate)
  from segments_loop_plain [OF plain, of e h "media_sequence obj" "[]" None w out] assms(1)
  show ?thesis
    by (simp add: get_ts_from_m3u8_def map_snd_enumerate)
qed

theorem unencrypted_output_is_concatenation_witness:
  "fst (get_ts_from_m3u8
          (sample_env [(''http://host/audio/a.ts'', [65, 65, 65]),
                       (''http://host/audio/b.ts'', [66, 66, 66]),
                       (''http://host/audio/c.ts'', [67, 67, 67])] [])
          \<lparr>media_sequence = 0, keys = [Some \<lparr>key_method = ''NONE'', uri = None\<rparr>],
           segments = [\<lparr>seg_uri = ''a.ts'', seg_key = Some \<lparr>key_method = ''NONE'', uri = None\<rparr>\<rparr>,
                       \<lparr>seg_uri = ''b.ts'', seg_key = Some \<lparr>key_method = ''NONE'', uri = None\<rparr>\<rparr>,
                       \<lparr>seg_uri = ''c.ts'', seg_key = Some \<lparr>key_method = ''NONE'', uri = None\<rparr>\<rparr>]\<rparr>
          (Some ''http://host/audio'') [])
     = Inr [65, 65, 65, 66, 66, 66, 67, 67, 67]"
  (is "fst (get_ts_from_m3u8 ?E ?O ?H []) = Inr ?out")
proof -
  have host: "resolve_host ?O ?H = Inr (Some ''http://host/audio'')"
    by (simp add: resolve_host_def)
  have plain: "\<forall>s\<in>set (segments ?O). \<not> is_aes s"
    by (simp add: is_aes_def)
  have "map (\<lambda>s. content_at ?E (segment_url ''http://host/audio'' s)) (segments ?O)
          = map Inr [[65, 65, 65], [66, 66, 66], [67, 67, 67]]
        \<and> ?out = concat [[65, 65, 65], [66, 66, 66], [67, 67, 67]]"
    by (simp add: content_at_def segment_url_def run_simps)
  then have "\<exists>ds. map (\<lambda>s. content_at ?E (segment_url ''http://host/audio'' s)) (segments ?O)
          = map Inr ds \<and> ?out = concat ds" ..
  moreover have "\<forall>s\<in>set (segments ?O). seg_key s \<noteq> None" by simp
  ultimately show ?thesis
    using unencrypted_output_is_concatenation [OF host plain, of ?E "[]" ?out] by blast
qed

text \<open>
  C4 says this of every playlist without AES-128 segments. The code misses the ordinary
  one, a playlist without any \<^verbatim>\<open>#EXT-X-KEY\<close>, whose segments have no key object:
  \<^verbatim>\<open>segment.key.method\<close> of line 147 raises \<^verbatim>\<open>AttributeError\<close> on the first
  segment, before anything is read, although line 145 has just chosen the pass-through.
\<close>

theorem keyless_playlist_raises:
  "get_ts_from_m3u8
      (sample_env [(''http://host/audio/a.ts'', [65, 65, 65]),
                   (''http://host/audio/b.ts'', [66, 66, 66]),
                   (''http://host/audio/c.ts'', [67, 67, 67])] [])
      \<lparr>media_sequence = 0, keys = [None],
       segments = [\<lparr>seg_uri = ''a.ts'', seg_key = None\<rparr>,
                   \<lparr>seg_uri = ''b.ts'', seg_key = None\<rparr>,
                   \<lparr>seg_uri = ''c.ts'', seg_key = None\<rparr>]\<rparr>
      (Some ''http://host/audio'') []
     = (Inl (AttributeError ''NoneType object has no attribute method''), [])"
  by (simp add: get_ts_from_m3u8_def resolve_host_def segment_body_def choose_decrypt_def)

subsection \<open>No host\<close>

text \<open>
  C7, as the code has it: the error \<^verbatim>\<open>TypeError("Host URL is not set.")\<close> is raised
  exactly when no host is supplied (\<^verbatim>\<open>None\<close> or the empty string) and
  \<^verbatim>\<open>get_host_uri\<close> returns \<^verbatim>\<open>None\<close>; it is raised before any segment is looked
  at, so whether the segment URIs are absolute plays no part. (The library calls are
  assumed not to raise an error with this very message.)
\<close>

theorem host_error_iff_no_host:
  assumes "\<forall>loc. content_at e loc \<noteq> Inl (TypeError ''Host URL is not set.'')"
  shows "(fst (get_ts_from_m3u8 e obj host_uri w) = Inl (TypeError ''Host URL is not set.'')
            \<longleftrightarrow> resolve_host obj host_uri = Inr None)
    \<and> (resolve_host obj host_uri = Inr None
            \<longleftrightarrow> (host_uri = None \<or> host_uri = Some []) \<and> get_host_uri obj = Inr None)
    \<and> (resolve_host obj host_uri = Inr None
            \<longrightarrow> get_ts_from_m3u8 e obj host_uri w = (Inl (TypeError ''Host URL is not set.''), w))"
proof (intro conjI)
  from assms have env: "\<forall>loc. content_at e loc \<noteq> Inl host_error"
    by (simp add: host_error_def)
  show "fst (get_ts_from_m3u8 e obj host_uri w) = Inl (TypeError ''Host URL is not set.'')
      \<longleftrightarrow> resolve_host obj host_uri = Inr None"
  proof (cases "resolve_host obj host_uri")
    case (Inl err)
    with resolve_host_error [OF Inl] show ?thesis
      by (simp add: get_ts_from_m3u8_def)
  next
    case (Inr hopt)
    show ?thesis
    proof (cases hopt)
      case None
      with Inr show ?thesis by (simp add: get_ts_from_m3u8_def)
    next
      case (Some h)
      with Inr segments_loop_not_host_error [OF env, of h "media_sequence obj"
          "enumerate 0 (segments obj)" "[]" None w]
      show ?thesis by (simp add: get_ts_from_m3u8_def host_error_def)
    qed
  qed
  show "resolve_host obj host_uri = Inr None
      \<longleftrightarrow> (host_uri = None \<or> host_uri = Some []) \<and> get_host_uri obj = Inr None"
    by (auto simp add: resolve_host_def split: option.splits)
  show "resolve_host obj host_uri = Inr None
      \<longrightarrow> get_ts_from_m3u8 e obj host_uri w = (Inl (TypeError ''Host URL is not set.''), w)"
    by (simp add: get_ts_from_m3u8_def)
qed

theorem host_error_iff_no_host_witness:
  "fst (get_ts_from_m3u8 (sample_env [] [])
          \<lparr>media_sequence = 0, keys = [],
           segments = [\<lparr>seg_uri = ''seg0.ts'', seg_key = Some \<lparr>key_method = ''NONE'', uri = None\<rparr>\<rparr>]\<rparr>
          None [])
     = Inl (TypeError ''Host URL is not set.'')
   \<and> fst (get_ts_from_m3u8 (sample_env [] [])
          \<lparr>media_sequence = 0, keys = [],
           segments = [\<lparr>seg_uri = ''seg0.ts'', seg_key = Some \<lparr>key_method = ''NONE'', uri = None\<rparr>\<rparr>]\<rparr>
          (Some ''/music'') [])
     \<noteq> Inl (TypeError ''Host URL is not set.'')"
  (is "fst (get_ts_from_m3u8 ?E ?O None []) = _ \<and> _")
proof -
  have env: "\<forall>loc. content_at ?E loc \<noteq> Inl (TypeError ''Host URL is not set.'')"
    by (auto simp add: content_at_def is_valid_def sample_env_def sample_env_with_def
        sample_urlparse_def Let_def lookup_bytes_def split: sum.splits if_splits)
  have none: "resolve_host ?O None = Inr None"
    by (simp add: resolve_host_def get_host_uri_def)
  have some: "resolve_host ?O (Some ''/music'') \<noteq> Inr None"
    by (simp add: resolve_host_def)
  from host_error_iff_no_host [OF env, of ?O None "[]"] none
  have "fst (get_ts_from_m3u8 ?E ?O None []) = Inl (TypeError ''Host URL is not set.'')"
    by blast
  moreover from host_error_iff_no_host [OF env, of ?O "Some ''/music''" "[]"] some
  have "fst (get_ts_from_m3u8 ?E ?O (Some ''/music'') []) \<noteq> Inl (TypeError ''Host URL is not set.'')"
    by blast
  ultimately show ?thesis by (rule conjI)
qed

text \<open>
  The claim of C7 as stated fails on a playlist whose only segment has an absolute
  URI: without a host the error is raised all the same.
\<close>

theorem host_error_counterexample:
  "is_valid (sample_env [] []) ''http://host/audio/seg0.ts'' None = Inr True
   \<and> get_ts_from_m3u8 (sample_env [] [])
        \<lparr>media_sequence = 0, keys = [None],
         segments = [\<lparr>seg_uri = ''http://host/audio/seg0.ts'', seg_key = None\<rparr>]\<rparr> None []
      = (Inl (TypeError ''Host URL is not set.''), [])"
  by (simp add: get_ts_from_m3u8_def resolve_host_def get_host_uri_def is_valid_def
      sample_env_def sample_env_with_def sample_urlparse_def Let_def)

subsection \<open>A key that cannot be fetched\<close>




subsection \<open>The host of the playlist\<close>

text \<open>
  \<^verbatim>\<open>get_host_uri\<close> looks at \<^verbatim>\<open>keys[i]\<close> for \<open>i\<close> below \<^verbatim>\<open>media_sequence\<close>: with
  a media sequence of 1 the first key gives the host, and an index beyond the keys
  raises \<^verbatim>\<open>IndexError\<close>.
\<close>

lemma get_host_uri_sequence_one:
  "get_host_uri \<lparr>media_sequence = 1,
                 keys = [Some \<lparr>key_method = ''AES-128'', uri = Some ''http://host/audio/key.bin''\<rparr>],
                 segments = []\<rparr>
     = Inr (Some ''http://host/audio'')"
  by (simp add: get_host_uri_def)

lemma get_host_uri_index_error:
  "get_host_uri \<lparr>media_sequence = 2, keys = [None], segments = []\<rparr>
     = Inl (IndexError ''list index out of range'')"
  by (simp add: get_host_uri_def upt_rec)

text \<open>
  C2 says that the host is the directory of the first key URI of the playlist. The code
  misses it when \<^verbatim>\<open>media_sequence\<close> is 0, the value of a playlist that does not
  set it: the loop over \<^verbatim>\<open>range(media_sequence)\<close> does not run, and the result is
  \<^verbatim>\<open>None\<close> although the only segment carries a key URI.
\<close>

theorem get_host_uri_skips_key_at_sequence_zero:
  "get_host_uri \<lparr>media_sequence = 0,
                 keys = [Some \<lparr>key_method = ''AES-128'', uri = Some ''http://host/audio/key.bin''\<rparr>],
                 segments = [\<lparr>seg_uri = ''seg0.ts'',
                              seg_key = Some \<lparr>key_method = ''AES-128'', uri = Some ''http://host/audio/key.bin''\<rparr>\<rparr>]\<rparr>
     = Inr None"
  by (simp add: get_host_uri_def)

end
